theory Spec2Isabelle
  imports Complex_Main "HOL-Library.AList"
begin

section \<open>Balanced risk set matching: the notebook's functions\<close>

text \<open>
  The notebook \<^verbatim>\<open>Implementation.ipynb\<close> defines four functions over pandas tables:
  \<^verbatim>\<open>create_risk_sets\<close>, \<^verbatim>\<open>calculate_mahalanobis_matrix\<close>,
  \<^verbatim>\<open>optimal_balanced_matching\<close> and \<^verbatim>\<open>sensitivity_analysis\<close>. Each is
  embedded below as a HOL function of the same name. Numbers are exact reals and a
  missing number is \<open>NaN\<close>: the rounding of floating-point arithmetic is left out,
  except at the two places where it changes what a function returns by more than the
  last digits of a number. These are the conversion of \<^verbatim>\<open>int64\<close> times to
  \<^verbatim>\<open>float64\<close> in \<^verbatim>\<open>create_risk_sets\<close>, and the underflow to zero and the
  infinities in \<^verbatim>\<open>sensitivity_analysis\<close>; both are part of the embedding.
  A Python \<^verbatim>\<open>dict\<close> is an association list with distinct keys,
  in insertion order, and \<^verbatim>\<open>d[k] = v\<close> is \<open>AList.update k v d\<close>: the value is
  replaced in place when the key is present and appended otherwise. Exceptions of the
  Python run time are values of the type \<open>error\<close>.
\<close>

subsection \<open>Data\<close>

type_synonym label = int

datatype cell = Num real | NaN

datatype error = KeyError | ValueError | LinAlgError | ZeroDivisionError

text \<open>A matching is the dict \<^verbatim>\<open>{treated_index: control_index}\<close>.\<close>

type_synonym matching = "(label \<times> label) list"

subsection \<open>sensitivity_analysis\<close>

text \<open>
  \<^verbatim>\<open>
  def sensitivity_analysis(matches, bias_factor=1.0):
      sensitivity_scores = {}
      for treated, control in matches.items():
          sensitivity_scores[(treated, control)] = 1 / (1 + bias_factor)
      return sensitivity_scores
  \<close>
  The loop over \<^verbatim>\<open>matches.items()\<close> is the recursion \<open>sensitivity_loop\<close>, with the
  dict being filled as its last argument. Python's division raises
  \<^verbatim>\<open>ZeroDivisionError\<close> on a zero divisor; with an empty dict the division is
  never evaluated.

  \<open>bias_factor\<close> is a Python number: an \<^verbatim>\<open>int\<close> of any size, or a \<^verbatim>\<open>float\<close>,
  which may be infinite or NaN. The score is a \<^verbatim>\<open>float\<close>. One divided by an infinity
  is zero, and NaN gives NaN. A quotient whose absolute value is at most \<open>2 ^ -1075\<close>,
  half the smallest positive \<^verbatim>\<open>float\<close>, is rounded to zero: \<open>underflow\<close>. A finite
  \<^verbatim>\<open>float\<close> is below \<open>2 ^ 1024\<close>, so only an \<^verbatim>\<open>int\<close> can be large enough for
  that. \<open>number_le\<close> is Python's \<^verbatim>\<open><=\<close> on these numbers; every comparison with
  NaN is false.
\<close>

datatype number = Number real | PlusInfinity | MinusInfinity | NotANumber

fun number_le :: "number \<Rightarrow> number \<Rightarrow> bool" where
  "number_le NotANumber b = False"
| "number_le a NotANumber = False"
| "number_le MinusInfinity b = True"
| "number_le a PlusInfinity = True"
| "number_le (Number x) (Number y) = (x \<le> y)"
| "number_le PlusInfinity b = False"
| "number_le a MinusInfinity = False"

definition underflow_bound :: real where
  "underflow_bound = 2 ^ 1075"

definition underflow :: "real \<Rightarrow> real" where
  "underflow q = (if \<bar>q\<bar> \<le> 1 / underflow_bound then 0 else q)"

text \<open>The expression \<^verbatim>\<open>1 / (1 + bias_factor)\<close>.\<close>

definition reciprocal_of_one_plus :: "number \<Rightarrow> error + number" where
  "reciprocal_of_one_plus bias_factor =
     (case bias_factor of
        Number g \<Rightarrow>
          if 1 + g = 0 then Inl ZeroDivisionError
          else Inr (Number (underflow (1 / (1 + g))))
      | PlusInfinity \<Rightarrow> Inr (Number 0)
      | MinusInfinity \<Rightarrow> Inr (Number 0)
      | NotANumber \<Rightarrow> Inr NotANumber)"

fun sensitivity_loop ::
  "matching \<Rightarrow> number \<Rightarrow> ((label \<times> label) \<times> number) list
     \<Rightarrow> error + ((label \<times> label) \<times> number) list"
where
  "sensitivity_loop [] bias_factor sensitivity_scores = Inr sensitivity_scores"
| "sensitivity_loop ((treated, control) # rest) bias_factor sensitivity_scores =
     (case reciprocal_of_one_plus bias_factor of
        Inl e \<Rightarrow> Inl e
      | Inr score \<Rightarrow>
          sensitivity_loop rest bias_factor
            (AList.update (treated, control) score sensitivity_scores))"

definition sensitivity_analysis ::
  "matching \<Rightarrow> number \<Rightarrow> error + ((label \<times> label) \<times> number) list"
where
  "sensitivity_analysis matches bias_factor = sensitivity_loop matches bias_factor []"

subsection \<open>Tables\<close>

text \<open>
  A pandas \<^verbatim>\<open>DataFrame\<close> has column names and rows; a row carries its index label and
  one value for each column. \<^verbatim>\<open>data[col]\<close> raises \<^verbatim>\<open>KeyError\<close> when \<open>col\<close> is not
  a column. Index labels may repeat in a frame; the spec's subject identifiers do not.
\<close>

record 'a dataframe =
  col_names :: "string list"
  rows :: "(label \<times> (string \<Rightarrow> 'a)) list"

definition data_index :: "'a dataframe \<Rightarrow> label list" where
  "data_index data = map fst (rows data)"

text \<open>
  Every column of a frame has a dtype. The tables here hold numbers only, in columns of
  dtype \<^verbatim>\<open>int64\<close> or \<^verbatim>\<open>float64\<close>; a column with a missing value is
  \<^verbatim>\<open>float64\<close>.
\<close>

datatype dtype = Int64 | Float64

record 'a typed_dataframe = "'a dataframe" +
  dtypes :: "string \<Rightarrow> dtype"

definition has_float_column :: "'a typed_dataframe \<Rightarrow> bool" where
  "has_float_column data \<longleftrightarrow> Float64 \<in> set (map (dtypes data) (col_names data))"

text \<open>
  The conversion of an integer to \<^verbatim>\<open>float64\<close> gives the nearest number with a
  significand of 53 bits, and of two nearest ones the one with the even significand.
  \<open>excess_bits a\<close> is the number of low bits that a non-negative \<open>a\<close> has beyond 53.
  An \<^verbatim>\<open>int64\<close> has at most 64 bits, so the exponent never overflows. Only integers
  are converted, as only \<^verbatim>\<open>int64\<close> columns are.
\<close>

function excess_bits :: "int \<Rightarrow> nat" where
  "excess_bits a = (if a < 2 ^ 53 then 0 else Suc (excess_bits (a div 2)))"
  by pat_completeness auto
termination
  by (relation "measure nat") auto

declare excess_bits.simps [simp del]

definition float64_of_int :: "int \<Rightarrow> int" where
  "float64_of_int n =
     (let a = \<bar>n\<bar>; e = excess_bits a; q = a div 2 ^ e; r = a mod 2 ^ e;
          q' = (if 2 ^ e < 2 * r \<or> (2 * r = 2 ^ e \<and> odd q) then q + 1 else q)
      in sgn n * (q' * 2 ^ e))"

definition float64 :: "real \<Rightarrow> real" where
  "float64 x = (if x \<in> \<int> then of_int (float64_of_int \<lfloor>x\<rfloor>) else x)"

text \<open>
  The elementwise comparisons of a numeric column with a number: \<^verbatim>\<open>column == k\<close> and
  \<^verbatim>\<open>column >= t\<close>. Every comparison with a missing value (NaN) is false.
\<close>

definition eq_num :: "cell \<Rightarrow> real \<Rightarrow> bool" where
  "eq_num v k = (case v of Num x \<Rightarrow> x = k | NaN \<Rightarrow> False)"

definition ge_cell :: "cell \<Rightarrow> cell \<Rightarrow> bool" where
  "ge_cell v t = (case v of Num x \<Rightarrow> (case t of Num y \<Rightarrow> y \<le> x | NaN \<Rightarrow> False) | NaN \<Rightarrow> False)"

definition float64_cell :: "cell \<Rightarrow> cell" where
  "float64_cell v = (case v of Num x \<Rightarrow> Num (float64 x) | NaN \<Rightarrow> NaN)"

subsection \<open>create_risk_sets\<close>

text \<open>
  \<^verbatim>\<open>
  def create_risk_sets(data, treatment_col, time_col):
      risk_sets = {}
      treated = data[data[treatment_col] == 1]  # Select treated patients only
      for index, treated_row in treated.iterrows():
          t = treated_row[time_col]
          # Controls must be untreated and observed after treatment time
          untreated = data[(data[treatment_col] == 0) & (data[time_col] >= t)]
          risk_sets[index] = untreated.index.tolist()
      return risk_sets
  \<close>
  \<open>untreated_index\<close> is \<^verbatim>\<open>untreated.index.tolist()\<close> for a treatment time \<open>t\<close>;
  \<open>risk_sets_loop\<close> is the loop over the treated rows. The time column is first read
  inside the loop, so a missing time column raises only when some row is treated.

  \<^verbatim>\<open>iterrows\<close> hands out each row as a Series of a single dtype. In a frame that has
  a \<^verbatim>\<open>float64\<close> column, the values of the \<^verbatim>\<open>int64\<close> columns are therefore
  converted to \<^verbatim>\<open>float64\<close> in \<open>treated_row\<close>, and \<open>t\<close> is such a converted value
  when the time column is \<^verbatim>\<open>int64\<close>. numpy then evaluates \<^verbatim>\<open>data[time_col] >= t\<close>
  on an \<^verbatim>\<open>int64\<close> column and a \<^verbatim>\<open>float64\<close> number by converting the column to
  \<^verbatim>\<open>float64\<close> too. \<open>upcast data col v\<close> is the value \<open>v\<close> of column \<open>col\<close> after this
  conversion; it is \<open>v\<close> itself in a frame with no \<^verbatim>\<open>float64\<close> column, and in a
  \<^verbatim>\<open>float64\<close> column. The masks \<^verbatim>\<open>data[treatment_col] == 1\<close> and
  \<^verbatim>\<open>data[treatment_col] == 0\<close> compare the column as it is stored with an integer.
\<close>

type_synonym risk_sets = "(label \<times> label list) list"

definition upcast :: "cell typed_dataframe \<Rightarrow> string \<Rightarrow> cell \<Rightarrow> cell" where
  "upcast data col v =
     (if dtypes data col = Int64 \<and> has_float_column data then float64_cell v else v)"

definition untreated_index ::
  "cell typed_dataframe \<Rightarrow> string \<Rightarrow> string \<Rightarrow> cell \<Rightarrow> label list"
where
  "untreated_index data treatment_col time_col t =
     map fst (filter (\<lambda>(i, r). eq_num (r treatment_col) 0 \<and>
                               ge_cell (upcast data time_col (r time_col)) t) (rows data))"

fun risk_sets_loop ::
  "cell typed_dataframe \<Rightarrow> string \<Rightarrow> string \<Rightarrow> (label \<times> (string \<Rightarrow> cell)) list \<Rightarrow> risk_sets
     \<Rightarrow> error + risk_sets"
where
  "risk_sets_loop data treatment_col time_col [] risk_sets = Inr risk_sets"
| "risk_sets_loop data treatment_col time_col ((index, treated_row) # rest) risk_sets =
     (if time_col \<notin> set (col_names data) then Inl KeyError
      else risk_sets_loop data treatment_col time_col rest
             (AList.update index
                (untreated_index data treatment_col time_col
                   (upcast data time_col (treated_row time_col))) risk_sets))"

definition create_risk_sets ::
  "cell typed_dataframe \<Rightarrow> string \<Rightarrow> string \<Rightarrow> error + risk_sets"
where
  "create_risk_sets data treatment_col time_col =
     (if treatment_col \<notin> set (col_names data) then Inl KeyError
      else risk_sets_loop data treatment_col time_col
             (filter (\<lambda>(i, r). eq_num (r treatment_col) 1) (rows data)) [])"

subsection \<open>calculate_mahalanobis_matrix\<close>

text \<open>
  \<^verbatim>\<open>
  def calculate_mahalanobis_matrix(data, cov_matrix):
      dist_matrix = pd.DataFrame(index=data.index, columns=data.index)
      for i in data.index:
          for j in data.index:
              dist = mahalanobis(data.loc[i], data.loc[j], np.linalg.inv(cov_matrix))
              dist_matrix.loc[i, j] = dist
      return dist_matrix
  \<close>
  Here \<open>data\<close> holds the covariates only, as real numbers. scipy's \<^verbatim>\<open>mahalanobis(u, v, VI)\<close>
  computes \<^verbatim>\<open>delta = u - v\<close>, \<^verbatim>\<open>m = np.dot(np.dot(delta, VI), delta)\<close> and returns
  \<^verbatim>\<open>np.sqrt(m)\<close>, which is NaN for a negative \<open>m\<close>. \<^verbatim>\<open>np.dot\<close> raises
  \<^verbatim>\<open>ValueError\<close> when the shapes do not fit. \<^verbatim>\<open>np.linalg.inv\<close> belongs to numpy; it
  is the parameter \<open>linalg_inv\<close>, which returns the inverse or raises
  \<^verbatim>\<open>LinAlgError\<close>. The two vectors are rows of the same frame, so they have the same
  length. \<^verbatim>\<open>data.loc[i]\<close> is the row labelled \<open>i\<close>; labels are taken to be unique
  (with a repeated label pandas returns a frame instead of a row).
\<close>

type_synonym vector = "real list"
type_synonym matrix = "real list list"

definition dot :: "vector \<Rightarrow> vector \<Rightarrow> real" where
  "dot a b = sum_list (map2 (*) a b)"

definition dot_vec_mat :: "vector \<Rightarrow> matrix \<Rightarrow> vector" where
  "dot_vec_mat d A = map (dot d) (transpose A)"

definition mahalanobis :: "vector \<Rightarrow> vector \<Rightarrow> matrix \<Rightarrow> error + cell" where
  "mahalanobis u v VI =
     (let delta = map2 (-) u v in
      if length delta \<noteq> length VI \<or> (\<exists>row \<in> set VI. length row \<noteq> length delta)
      then Inl ValueError
      else let m = dot (dot_vec_mat delta VI) delta
           in if m < 0 then Inr NaN else Inr (Num (sqrt m)))"

definition loc :: "real dataframe \<Rightarrow> label \<Rightarrow> error + vector" where
  "loc data i =
     (case map_of (rows data) i of
        None \<Rightarrow> Inl KeyError
      | Some r \<Rightarrow> Inr (map r (col_names data)))"

definition pair_distance ::
  "(matrix \<Rightarrow> error + matrix) \<Rightarrow> real dataframe \<Rightarrow> matrix \<Rightarrow> label \<Rightarrow> label \<Rightarrow> error + cell"
where
  "pair_distance linalg_inv data cov_matrix i j =
     (case loc data i of Inl e \<Rightarrow> Inl e | Inr u \<Rightarrow>
      (case loc data j of Inl e \<Rightarrow> Inl e | Inr v \<Rightarrow>
       (case linalg_inv cov_matrix of Inl e \<Rightarrow> Inl e | Inr VI \<Rightarrow> mahalanobis u v VI)))"

type_synonym frame = "label \<times> label \<Rightarrow> cell option"

definition empty_frame :: "label list \<Rightarrow> frame" where
  "empty_frame idx = (\<lambda>(i, j). if i \<in> set idx \<and> j \<in> set idx then Some NaN else None)"

fun distance_row ::
  "(matrix \<Rightarrow> error + matrix) \<Rightarrow> real dataframe \<Rightarrow> matrix \<Rightarrow> label \<Rightarrow> label list \<Rightarrow> frame
     \<Rightarrow> error + frame"
where
  "distance_row linalg_inv data cov_matrix i [] dist_matrix = Inr dist_matrix"
| "distance_row linalg_inv data cov_matrix i (j # js) dist_matrix =
     (case pair_distance linalg_inv data cov_matrix i j of
        Inl e \<Rightarrow> Inl e
      | Inr d \<Rightarrow>
          distance_row linalg_inv data cov_matrix i js (dist_matrix((i, j) \<mapsto> d)))"

fun distance_rows ::
  "(matrix \<Rightarrow> error + matrix) \<Rightarrow> real dataframe \<Rightarrow> matrix \<Rightarrow> label list \<Rightarrow> frame
     \<Rightarrow> error + frame"
where
  "distance_rows linalg_inv data cov_matrix [] dist_matrix = Inr dist_matrix"
| "distance_rows linalg_inv data cov_matrix (i # is) dist_matrix =
     (case distance_row linalg_inv data cov_matrix i (data_index data) dist_matrix of
        Inl e \<Rightarrow> Inl e
      | Inr dist_matrix' \<Rightarrow> distance_rows linalg_inv data cov_matrix is dist_matrix')"

definition calculate_mahalanobis_matrix ::
  "(matrix \<Rightarrow> error + matrix) \<Rightarrow> real dataframe \<Rightarrow> matrix \<Rightarrow> error + frame"
where
  "calculate_mahalanobis_matrix linalg_inv data cov_matrix =
     distance_rows linalg_inv data cov_matrix (data_index data) (empty_frame (data_index data))"

subsection \<open>optimal_balanced_matching\<close>

text \<open>
  \<^verbatim>\<open>
  def optimal_balanced_matching(distance_matrix, risk_sets, penalty_factor=1e5):
      prob = LpProblem("Optimal_Matching", LpMinimize)
      match_vars = {
          (t, c): LpVariable(f"match_{t}_{c}", 0, 1, cat="Binary")
          for t, controls in risk_sets.items()
          for c in controls
      }
      prob += lpSum(
          match_vars[t, c] * distance_matrix.loc[t, c]
          for t, controls in risk_sets.items()
          for c in controls
      )
      for t in risk_sets:
          prob += lpSum(match_vars[t, c] for c in risk_sets[t]) == 1
      all_controls = set(c for controls in risk_sets.values() for c in controls)
      for c in all_controls:
          prob += lpSum(match_vars[t, c] for t in risk_sets if c in risk_sets[t]) <= 1
      prob.solve()
      matches = {
          t: c
          for t, controls in risk_sets.items()
          for c in controls
          if match_vars[t, c].value() == 1
      }
      return matches
  \<close>
  The function builds a PuLP program, hands it to the solver and reads the variables
  back. A variable is identified by its key \<open>(t, c)\<close> in \<^verbatim>\<open>match_vars\<close>. The program
  is a record of its variables (all binary), the terms of its objective (to minimise)
  and its constraints, each \<^verbatim>\<open>lpSum(variables) == 1\<close> or
  \<^verbatim>\<open>lpSum(variables) <= 1\<close>. The solver belongs to PuLP: \<^verbatim>\<open>prob.solve()\<close> is the
  parameter \<open>solve\<close>, which returns a status and, for each variable, the value that
  \<^verbatim>\<open>.value()\<close> reads (\<open>None\<close> when the solver set none). The distance matrix holds
  real distances; \<^verbatim>\<open>distance_matrix.loc[t, c]\<close> raises \<^verbatim>\<open>KeyError\<close> for a pair it
  does not hold. \<^verbatim>\<open>penalty_factor\<close> is not used.

  Two failures of PuLP lie outside these types and are not part of the embedding: the
  error that PuLP raises for a distance that is NaN or infinite, and an error raised by
  the solver itself (a missing solver binary, for one). The results below are about
  calls with real distances in which the solver returns.
\<close>

type_synonym lp_var = "label \<times> label"

datatype lp_sense = LpConstraintEQ | LpConstraintLE

type_synonym lp_constraint = "lp_var list \<times> lp_sense \<times> real"

record lp_problem =
  variables :: "lp_var list"
  objective :: "(lp_var \<times> real) list"
  constraints :: "lp_constraint list"

datatype lp_status =
  LpStatusOptimal | LpStatusNotSolved | LpStatusInfeasible | LpStatusUnbounded | LpStatusUndefined

record lp_solution =
  status :: lp_status
  varValue :: "lp_var \<Rightarrow> real option"

type_synonym distances = "label \<times> label \<Rightarrow> real option"

text \<open>The pairs visited by \<^verbatim>\<open>for t, controls in risk_sets.items() for c in controls\<close>.\<close>

definition risk_pairs :: "risk_sets \<Rightarrow> lp_var list" where
  "risk_pairs risk_sets = concat (map (\<lambda>(t, controls). map (\<lambda>c. (t, c)) controls) risk_sets)"

fun objective_terms :: "distances \<Rightarrow> lp_var list \<Rightarrow> error + (lp_var \<times> real) list" where
  "objective_terms distance_matrix [] = Inr []"
| "objective_terms distance_matrix ((t, c) # rest) =
     (case distance_matrix (t, c) of
        None \<Rightarrow> Inl KeyError
      | Some d \<Rightarrow>
          (case objective_terms distance_matrix rest of
             Inl e \<Rightarrow> Inl e
           | Inr terms \<Rightarrow> Inr (((t, c), d) # terms)))"

definition treated_constraints :: "risk_sets \<Rightarrow> lp_constraint list" where
  "treated_constraints risk_sets =
     map (\<lambda>(t, controls). (map (\<lambda>c. (t, c)) controls, LpConstraintEQ, 1)) risk_sets"

definition all_controls :: "risk_sets \<Rightarrow> label list" where
  "all_controls risk_sets = remdups (concat (map snd risk_sets))"

definition control_constraints :: "risk_sets \<Rightarrow> lp_constraint list" where
  "control_constraints risk_sets =
     map (\<lambda>c. (map (\<lambda>(t, controls). (t, c))
                  (filter (\<lambda>(t, controls). c \<in> set controls) risk_sets),
                LpConstraintLE, 1))
       (all_controls risk_sets)"

definition matching_problem :: "distances \<Rightarrow> risk_sets \<Rightarrow> error + lp_problem" where
  "matching_problem distance_matrix risk_sets =
     (case objective_terms distance_matrix (risk_pairs risk_sets) of
        Inl e \<Rightarrow> Inl e
      | Inr terms \<Rightarrow>
          Inr \<lparr>variables = remdups (risk_pairs risk_sets), objective = terms,
               constraints = treated_constraints risk_sets @ control_constraints risk_sets\<rparr>)"

definition extract_matches :: "lp_solution \<Rightarrow> risk_sets \<Rightarrow> matching" where
  "extract_matches solution risk_sets =
     fold (\<lambda>(t, c) matches.
             if varValue solution (t, c) = Some 1 then AList.update t c matches else matches)
       (risk_pairs risk_sets) []"

definition optimal_balanced_matching ::
  "(lp_problem \<Rightarrow> lp_solution) \<Rightarrow> distances \<Rightarrow> risk_sets \<Rightarrow> real \<Rightarrow> error + matching"
where
  "optimal_balanced_matching solve distance_matrix risk_sets penalty_factor =
     (case matching_problem distance_matrix risk_sets of
        Inl e \<Rightarrow> Inl e
      | Inr prob \<Rightarrow> Inr (extract_matches (solve prob) risk_sets))"

subsection \<open>The meaning of the program\<close>

text \<open>
  An assignment gives every variable a number. It is feasible for a program when every
  variable is 0 or 1 and every constraint holds; its objective value is the sum of the
  objective's terms; it is optimal when it is feasible and no feasible assignment has a
  smaller objective value. A solution carries an assignment when \<^verbatim>\<open>.value()\<close> of
  every variable of the program is that assignment's number.
\<close>

type_synonym assignment = "lp_var \<Rightarrow> real"

fun satisfies :: "assignment \<Rightarrow> lp_constraint \<Rightarrow> bool" where
  "satisfies x (vars, LpConstraintEQ, rhs) = (sum_list (map x vars) = rhs)"
| "satisfies x (vars, LpConstraintLE, rhs) = (sum_list (map x vars) \<le> rhs)"

definition feasible :: "lp_problem \<Rightarrow> assignment \<Rightarrow> bool" where
  "feasible prob x \<longleftrightarrow>
     (\<forall>v \<in> set (variables prob). x v = 0 \<or> x v = 1) \<and>
     (\<forall>k \<in> set (constraints prob). satisfies x k)"

definition objective_value :: "lp_problem \<Rightarrow> assignment \<Rightarrow> real" where
  "objective_value prob x = (\<Sum>(v, d) \<leftarrow> objective prob. x v * d)"

definition optimal :: "lp_problem \<Rightarrow> assignment \<Rightarrow> bool" where
  "optimal prob x \<longleftrightarrow> feasible prob x \<and> (\<forall>y. feasible prob y \<longrightarrow> objective_value prob x \<le> objective_value prob y)"

definition carries :: "lp_solution \<Rightarrow> lp_problem \<Rightarrow> assignment \<Rightarrow> bool" where
  "carries solution prob x \<longleftrightarrow> (\<forall>v \<in> set (variables prob). varValue solution v = Some (x v))"

text \<open>
  A one-to-one assignment that respects the risk sets pairs every treated subject (every
  key of the risk sets) with one control of its own risk set, and no control twice. The
  total dissimilarity of a matching is the sum of the distances of its pairs.
\<close>

definition feasible_assignment :: "risk_sets \<Rightarrow> matching \<Rightarrow> bool" where
  "feasible_assignment risk_sets matches \<longleftrightarrow>
     distinct (map fst matches) \<and> distinct (map snd matches) \<and>
     fst ` set matches = fst ` set risk_sets \<and>
     (\<forall>(t, c) \<in> set matches. \<exists>controls. (t, controls) \<in> set risk_sets \<and> c \<in> set controls)"

definition distance_of :: "distances \<Rightarrow> lp_var \<Rightarrow> real" where
  "distance_of distance_matrix v = (case distance_matrix v of Some d \<Rightarrow> d | None \<Rightarrow> 0)"

definition total_distance :: "distances \<Rightarrow> matching \<Rightarrow> real" where
  "total_distance distance_matrix matches = (\<Sum>v \<leftarrow> matches. distance_of distance_matrix v)"

subsection \<open>The notebook's example cohort\<close>

text \<open>
  The synthetic table of the notebook's last cell: ten patients with the columns
  \<^verbatim>\<open>id\<close>, \<^verbatim>\<open>age\<close>, \<^verbatim>\<open>severity\<close>, \<^verbatim>\<open>treatment\<close> and \<^verbatim>\<open>time\<close>.
  \<open>patient\<close> builds one row from its five values. All five columns hold Python
  integers, so all are \<^verbatim>\<open>int64\<close>.
\<close>

definition patient :: "cell \<Rightarrow> cell \<Rightarrow> cell \<Rightarrow> cell \<Rightarrow> cell \<Rightarrow> string \<Rightarrow> cell" where
  "patient ident age severity treatment time c =
     (if c = ''id'' then ident else if c = ''age'' then age
      else if c = ''severity'' then severity else if c = ''treatment'' then treatment
      else if c = ''time'' then time else NaN)"

definition example_data :: "cell typed_dataframe" where
  "example_data =
     \<lparr>col_names = [''id'', ''age'', ''severity'', ''treatment'', ''time''],
      rows = [(0, patient (Num 0) (Num 25) (Num 1) (Num 0) (Num 3)),
              (1, patient (Num 1) (Num 30) (Num 2) (Num 0) (Num 4)),
              (2, patient (Num 2) (Num 35) (Num 3) (Num 0) (Num 5)),
              (3, patient (Num 3) (Num 40) (Num 4) (Num 1) (Num 6)),
              (4, patient (Num 4) (Num 45) (Num 5) (Num 0) (Num 7)),
              (5, patient (Num 5) (Num 50) (Num 6) (Num 0) (Num 8)),
              (6, patient (Num 6) (Num 55) (Num 7) (Num 0) (Num 9)),
              (7, patient (Num 7) (Num 60) (Num 8) (Num 1) (Num 10)),
              (8, patient (Num 8) (Num 65) (Num 9) (Num 0) (Num 11)),
              (9, patient (Num 9) (Num 70) (Num 10) (Num 0) (Num 12))],
      dtypes = (\<lambda>c. Int64)\<rparr>"

section \<open>Properties of sensitivity_analysis\<close>

lemma sensitivity_loop_ok:
  "reciprocal_of_one_plus g = Inr s \<Longrightarrow> \<exists>out. sensitivity_loop ms g acc = Inr out"
  by (induction ms g acc rule: sensitivity_loop.induct) auto

lemma sensitivity_loop_map_of:
  "reciprocal_of_one_plus g = Inr s \<Longrightarrow> sensitivity_loop ms g acc = Inr out \<Longrightarrow>
   map_of out p = (if p \<in> set ms then Some s else map_of acc p)"
proof (induction ms g acc rule: sensitivity_loop.induct)
  case (1 bias_factor sensitivity_scores)
  then show ?case by simp
next
  case (2 treated control rest bias_factor sensitivity_scores)
  then show ?case by (auto simp: update_conv')
qed

lemma sensitivity_analysis_lookup:
  assumes "reciprocal_of_one_plus g = Inr s" and "sensitivity_analysis ms g = Inr out"
  shows "map_of out p = (if p \<in> set ms then Some s else None)"
  using sensitivity_loop_map_of [OF assms(1) assms(2) [unfolded sensitivity_analysis_def], of p]
  by simp

lemma sensitivity_loop_distinct:
  "sensitivity_loop ms g acc = Inr out \<Longrightarrow> distinct (map fst acc) \<Longrightarrow> distinct (map fst out)"
  by (induction ms g acc rule: sensitivity_loop.induct)
     (auto simp: distinct_update split: sum.splits)

lemma sensitivity_analysis_entries:
  assumes "reciprocal_of_one_plus g = Inr s" and "sensitivity_analysis ms g = Inr out"
  shows "(p, s') \<in> set out \<longleftrightarrow> p \<in> set ms \<and> s' = s"
proof -
  have "distinct (map fst out)"
    using sensitivity_loop_distinct [of ms g "[]" out] assms(2)
    by (simp add: sensitivity_analysis_def)
  then have "(p, s') \<in> set out \<longleftrightarrow> map_of out p = Some s'" by simp
  then show ?thesis
    using sensitivity_analysis_lookup [OF assms, of p] by auto
qed

lemma underflow_bound_positive: "0 < underflow_bound"
  unfolding underflow_bound_def by (rule zero_less_power) simp

lemma underflow_bounds: "0 \<le> q \<Longrightarrow> q \<le> 1 \<Longrightarrow> 0 \<le> underflow q \<and> underflow q \<le> 1"
  by (simp add: underflow_def)

lemma underflow_mono: "0 \<le> a \<Longrightarrow> a \<le> b \<Longrightarrow> underflow a \<le> underflow b"
  using underflow_bound_positive by (auto simp: underflow_def)

lemma underflow_positive:
  assumes "1 / underflow_bound < q"
  shows "0 < underflow q"
proof -
  have "0 < 1 / underflow_bound" using underflow_bound_positive by simp
  from this assms have "0 < q" by (rule less_trans)
  with assms show ?thesis by (simp add: underflow_def)
qed

lemma reciprocal_of_bias_strength:
  assumes "number_le (Number 1) g"
  shows "\<exists>r. reciprocal_of_one_plus g = Inr (Number r) \<and> 0 \<le> r \<and> r \<le> 1 \<and>
           ((\<exists>x. g = Number x \<and> 1 + x < underflow_bound) \<longrightarrow> 0 < r)"
proof (cases g)
  case (Number x)
  with assms have x: "1 \<le> x" by simp
  then have q: "0 \<le> 1 / (1 + x)" "1 / (1 + x) \<le> 1" by simp_all
  have pos: "0 < underflow (1 / (1 + x))" if "1 + x < underflow_bound"
  proof (rule underflow_positive)
    from x that show "1 / underflow_bound < 1 / (1 + x)"
      by (intro divide_strict_left_mono) auto
  qed
  from x have "1 + x \<noteq> 0" by simp
  with Number underflow_bounds [OF q] pos show ?thesis
    by (auto simp: reciprocal_of_one_plus_def)
next
  case PlusInfinity
  then show ?thesis by (simp add: reciprocal_of_one_plus_def)
next
  case MinusInfinity
  with assms show ?thesis by simp
next
  case NotANumber
  with assms show ?thesis by simp
qed

text \<open>
  A bias strength of 4 or less is far below the bound of the underflow, and
  \<open>10 ^ 330\<close> is beyond it.
\<close>

lemma small_below_underflow_bound:
  assumes "x \<le> 4"
  shows "x < underflow_bound"
proof -
  have "(2::real) ^ 3 \<le> 2 ^ 1075" by (rule power_increasing) simp_all
  moreover have "x < 2 ^ 3" using assms by simp
  ultimately show ?thesis unfolding underflow_bound_def by (rule less_le_trans [rotated])
qed

lemma underflow_bound_le: "underflow_bound \<le> 10 ^ 330"
proof -
  have small: "(2::real) ^ 109 \<le> 10 ^ 33" by simp
  have "(2::real) ^ 1075 \<le> 2 ^ (109 * 10)" by (rule power_increasing) simp_all
  also have "\<dots> = (2 ^ 109) ^ 10" by (rule power_mult)
  also have "\<dots> \<le> ((10::real) ^ 33) ^ 10"
    by (rule power_mono [OF small]) (rule zero_le_power, simp)
  also have "\<dots> = 10 ^ (33 * 10)" by (rule power_mult [symmetric])
  finally have "(2::real) ^ 1075 \<le> 10 ^ (33 * 10)" .
  moreover have "(33::nat) * 10 = 330" by simp
  ultimately show ?thesis by (simp only: underflow_bound_def)
qed

lemma huge_positive: "(0::real) < 1 + 10 ^ 330"
  by (rule add_pos_pos) (simp_all only: zero_less_one zero_less_power zero_less_numeral)

lemma underflow_huge: "underflow (1 / (1 + 10 ^ 330)) = 0"
proof -
  have "(10::real) ^ 330 \<le> 1 + 10 ^ 330"
    by (simp only: le_add_same_cancel2 zero_le_one)
  with underflow_bound_le have "underflow_bound \<le> 1 + 10 ^ 330" by (rule order_trans)
  then have "1 / (1 + 10 ^ 330) \<le> 1 / underflow_bound"
    by (rule divide_left_mono)
       (simp_all only: zero_le_one mult_pos_pos [OF huge_positive underflow_bound_positive])
  moreover have "(0::real) \<le> 1 / (1 + 10 ^ 330)"
    by (rule divide_nonneg_pos [OF zero_le_one huge_positive])
  ultimately show ?thesis by (simp only: underflow_def abs_of_nonneg if_True)
qed

lemma reciprocal_monotone:
  assumes "number_le (Number 1) g1" and "number_le g1 g2"
  shows "\<exists>a b. reciprocal_of_one_plus g1 = Inr (Number a) \<and>
           reciprocal_of_one_plus g2 = Inr (Number b) \<and> b \<le> a"
proof (cases g1)
  case g1: (Number x)
  with assms(1) have x: "1 \<le> x" by simp
  then have nz1: "1 + x \<noteq> 0" by simp
  have a0: "0 \<le> underflow (1 / (1 + x))"
    using underflow_bounds [of "1 / (1 + x)"] x by simp
  show ?thesis
  proof (cases g2)
    case g2: (Number y)
    with assms(2) g1 have y: "x \<le> y" by simp
    with x have nz2: "1 + y \<noteq> 0" by simp
    have "1 / (1 + y) \<le> 1 / (1 + x)" using x y by (simp add: frac_le)
    moreover have "0 \<le> 1 / (1 + y)" using x y by simp
    ultimately have "underflow (1 / (1 + y)) \<le> underflow (1 / (1 + x))"
      by (intro underflow_mono)
    with g1 g2 nz1 nz2 show ?thesis by (simp add: reciprocal_of_one_plus_def)
  next
    case PlusInfinity
    with g1 nz1 a0 show ?thesis by (simp add: reciprocal_of_one_plus_def)
  next
    case MinusInfinity
    with assms(2) g1 show ?thesis by simp
  next
    case NotANumber
    with assms(2) g1 show ?thesis by simp
  qed
next
  case g1: PlusInfinity
  with assms(2) have "g2 = PlusInfinity" by (cases g2) simp_all
  with g1 show ?thesis by (simp add: reciprocal_of_one_plus_def)
next
  case MinusInfinity
  with assms(1) show ?thesis by simp
next
  case NotANumber
  with assms(1) show ?thesis by simp
qed

text \<open>
  Claim C9, as amended. For every matching and every bias strength \<open>\<Gamma> \<ge> 1\<close>, finite or
  infinite, \<^verbatim>\<open>sensitivity_analysis\<close> returns a dict (it does not raise), its keys are
  the matched pairs, and every score in it is a number of the closed interval
  \<open>[0, 1]\<close>. Every score is positive, hence in \<open>(0, 1]\<close>, whenever \<open>\<Gamma>\<close> is finite
  and \<open>1 + \<Gamma> < 2 ^ 1075\<close>, which every finite \<^verbatim>\<open>float\<close> satisfies.
\<close>

theorem sensitivity_scores_in_closed_unit_interval:
  assumes "number_le (Number 1) g"
  shows "\<exists>scores. sensitivity_analysis matches g = Inr scores \<and>
           fst ` set scores = set matches \<and>
           (\<forall>(pair, s) \<in> set scores. \<exists>r. s = Number r \<and> 0 \<le> r \<and> r \<le> 1) \<and>
           ((\<exists>x. g = Number x \<and> 1 + x < underflow_bound) \<longrightarrow>
              (\<forall>(pair, s) \<in> set scores. \<exists>r. s = Number r \<and> 0 < r))"
proof -
  obtain r where r: "reciprocal_of_one_plus g = Inr (Number r)" "0 \<le> r" "r \<le> 1"
    "(\<exists>x. g = Number x \<and> 1 + x < underflow_bound) \<longrightarrow> 0 < r"
    using reciprocal_of_bias_strength [OF assms] by blast
  obtain scores where s: "sensitivity_analysis matches g = Inr scores"
    unfolding sensitivity_analysis_def using sensitivity_loop_ok [OF r(1)] by blast
  have ent: "(p, s') \<in> set scores \<longleftrightarrow> p \<in> set matches \<and> s' = Number r" for p s'
    by (rule sensitivity_analysis_entries [OF r(1) s])
  have keys: "fst ` set scores = set matches"
    using ent by force
  have closed: "\<forall>(pair, s') \<in> set scores. \<exists>r'. s' = Number r' \<and> 0 \<le> r' \<and> r' \<le> 1"
    using ent r(2,3) by auto
  have "\<forall>(pair, s') \<in> set scores. \<exists>r'. s' = Number r' \<and> 0 < r'"
    if "\<exists>x. g = Number x \<and> 1 + x < underflow_bound"
    using ent r(4) that by blast
  with s keys closed show ?thesis by blast
qed

theorem sensitivity_scores_in_closed_unit_interval_witness:
  "number_le (Number 1) (Number (6 / 5)) \<and>
   (\<exists>scores. sensitivity_analysis [(3, 4), (7, 8)] (Number (6 / 5)) = Inr scores \<and>
      fst ` set scores = set [(3, 4), (7, 8)] \<and>
      (\<forall>(pair, s) \<in> set scores. \<exists>r. s = Number r \<and> 0 \<le> r \<and> r \<le> 1) \<and>
      (\<forall>(pair, s) \<in> set scores. \<exists>r. s = Number r \<and> 0 < r))"
proof -
  have h: "number_le (Number 1) (Number (6 / 5))" by simp
  have "1 + 6 / 5 < underflow_bound" by (rule small_below_underflow_bound) simp
  then have small: "\<exists>x. Number (6 / 5) = Number x \<and> 1 + x < underflow_bound" by blast
  from sensitivity_scores_in_closed_unit_interval [OF h, of "[(3, 4), (7, 8)]"]
  obtain scores where
    "sensitivity_analysis [(3, 4), (7, 8)] (Number (6 / 5)) = Inr scores"
    "fst ` set scores = set [(3, 4), (7, 8)]"
    "\<forall>(pair, s) \<in> set scores. \<exists>r. s = Number r \<and> 0 \<le> r \<and> r \<le> 1"
    "(\<exists>x. Number (6 / 5) = Number x \<and> 1 + x < underflow_bound) \<longrightarrow>
       (\<forall>(pair, s) \<in> set scores. \<exists>r. s = Number r \<and> 0 < r)"
    by blast
  with small h show ?thesis by blast
qed

text \<open>
  Claim C9 as stated fails: at the bias strength \<open>10 ^ 330\<close>, a Python \<^verbatim>\<open>int\<close>, and at
  the bias strength \<^verbatim>\<open>inf\<close>, the score of a matched pair is \<open>0\<close>, which is outside
  \<open>(0, 1]\<close>.
\<close>

theorem sensitivity_score_zero_counterexample:
  "number_le (Number 1) (Number (10 ^ 330)) \<and>
   sensitivity_analysis [(3, 4)] (Number (10 ^ 330)) = Inr [((3, 4), Number 0)] \<and>
   number_le (Number 1) PlusInfinity \<and>
   sensitivity_analysis [(3, 4)] PlusInfinity = Inr [((3, 4), Number 0)]"
proof -
  from huge_positive have nz: "1 + (10::real) ^ 330 \<noteq> 0" by (rule less_imp_neq [THEN not_sym])
  have r: "reciprocal_of_one_plus (Number (10 ^ 330)) = Inr (Number 0)"
    unfolding reciprocal_of_one_plus_def number.case if_not_P [OF nz] underflow_huge ..
  have a: "sensitivity_analysis [(3, 4)] (Number (10 ^ 330)) = Inr [((3, 4), Number 0)]"
    unfolding sensitivity_analysis_def sensitivity_loop.simps r
    by (simp only: sum.case AList.update.simps)
  have b: "sensitivity_analysis [(3, 4)] PlusInfinity = Inr [((3, 4), Number 0)]"
    by (simp add: sensitivity_analysis_def reciprocal_of_one_plus_def)
  have "(1::real) \<le> 10 ^ 330" by (rule one_le_power) simp
  then have c: "number_le (Number 1) (Number (10 ^ 330))"
    by (simp only: number_le.simps)
  have d: "number_le (Number 1) PlusInfinity" by simp
  show ?thesis by (intro conjI a b c d)
qed

text \<open>
  Claim C5. For a fixed matching and bias strengths \<open>\<Gamma>1 \<le> \<Gamma>2\<close> (a bias strength is
  at least 1, and may be infinite), both calls return a dict with the same keys, the
  matched pairs, and the score of every pair at \<open>\<Gamma>2\<close> is at most its score at \<open>\<Gamma>1\<close>.
\<close>

theorem sensitivity_monotone_in_bias:
  assumes "number_le (Number 1) g1" and "number_le g1 g2"
  shows "\<exists>s1 s2. sensitivity_analysis matches g1 = Inr s1 \<and>
           sensitivity_analysis matches g2 = Inr s2 \<and>
           (\<forall>pair \<in> set matches. \<exists>a b. map_of s1 pair = Some (Number a) \<and>
              map_of s2 pair = Some (Number b) \<and> b \<le> a) \<and>
           (\<forall>pair. pair \<notin> set matches \<longrightarrow> map_of s1 pair = None \<and> map_of s2 pair = None)"
proof -
  obtain a b where r1: "reciprocal_of_one_plus g1 = Inr (Number a)"
    and r2: "reciprocal_of_one_plus g2 = Inr (Number b)" and le: "b \<le> a"
    using reciprocal_monotone [OF assms] by blast
  obtain s1 where s1: "sensitivity_analysis matches g1 = Inr s1"
    unfolding sensitivity_analysis_def using sensitivity_loop_ok [OF r1] by blast
  obtain s2 where s2: "sensitivity_analysis matches g2 = Inr s2"
    unfolding sensitivity_analysis_def using sensitivity_loop_ok [OF r2] by blast
  show ?thesis
    using s1 s2 le sensitivity_analysis_lookup [OF r1 s1] sensitivity_analysis_lookup [OF r2 s2]
    by simp
qed

theorem sensitivity_monotone_in_bias_witness:
  "number_le (Number 1) (Number 1) \<and> number_le (Number 1) (Number (6 / 5)) \<and>
   (\<exists>s1 s2. sensitivity_analysis [(3, 4), (7, 8)] (Number 1) = Inr s1 \<and>
      sensitivity_analysis [(3, 4), (7, 8)] (Number (6 / 5)) = Inr s2 \<and>
      (\<forall>pair \<in> set [(3, 4), (7, 8)]. \<exists>a b. map_of s1 pair = Some (Number a) \<and>
         map_of s2 pair = Some (Number b) \<and> b \<le> a) \<and>
      (\<forall>pair. pair \<notin> set [(3, 4), (7, 8)] \<longrightarrow> map_of s1 pair = None \<and> map_of s2 pair = None))"
proof -
  have h1: "number_le (Number 1) (Number 1)" and h2: "number_le (Number 1) (Number (6 / 5))"
    by simp_all
  show ?thesis
    using h1 h2 sensitivity_monotone_in_bias [OF h1 h2, of "[(3, 4), (7, 8)]"] by simp
qed

section \<open>Properties of create_risk_sets\<close>

lemma eq_num_iff: "eq_num v k \<longleftrightarrow> v = Num k"
  by (cases v) (auto simp: eq_num_def)

lemma ge_cell_iff: "ge_cell v t \<longleftrightarrow> (\<exists>x y. v = Num x \<and> t = Num y \<and> y \<le> x)"
  by (cases v; cases t) (auto simp: ge_cell_def)

lemma risk_sets_loop_ok:
  "time_col \<in> set (col_names data) \<Longrightarrow>
   \<exists>out. risk_sets_loop data treatment_col time_col trs acc = Inr out"
  by (induction data treatment_col time_col trs acc rule: risk_sets_loop.induct) auto

lemma risk_sets_loop_map_of:
  "time_col \<in> set (col_names data) \<Longrightarrow> distinct (map fst trs) \<Longrightarrow>
   risk_sets_loop data treatment_col time_col trs acc = Inr out \<Longrightarrow>
   map_of out k =
     (case map_of trs k of
        Some r \<Rightarrow> Some (untreated_index data treatment_col time_col
                             (upcast data time_col (r time_col)))
      | None \<Rightarrow> map_of acc k)"
proof (induction data treatment_col time_col trs acc rule: risk_sets_loop.induct)
  case (1 data treatment_col time_col risk_sets)
  then show ?case by simp
next
  case (2 data treatment_col time_col index treated_row rest risk_sets)
  let ?v = "untreated_index data treatment_col time_col
              (upcast data time_col (treated_row time_col))"
  from "2.prems" have notin: "index \<notin> fst ` set rest" and d: "distinct (map fst rest)"
    by simp_all
  from "2.prems" have run:
    "risk_sets_loop data treatment_col time_col rest (AList.update index ?v risk_sets) = Inr out"
    by simp
  have ih: "map_of out k =
     (case map_of rest k of
        Some r \<Rightarrow> Some (untreated_index data treatment_col time_col
                             (upcast data time_col (r time_col)))
      | None \<Rightarrow> map_of (AList.update index ?v risk_sets) k)"
    using "2.IH" "2.prems"(1) d run by simp
  show ?case
  proof (cases "k = index")
    case True
    with notin have "map_of rest k = None" by (simp add: map_of_eq_None_iff)
    with ih True show ?thesis by (simp add: update_conv')
  next
    case False
    with ih show ?thesis by (simp add: update_conv' split: option.splits)
  qed
qed

lemma map_of_filter_snd:
  "distinct (map fst xs) \<Longrightarrow>
   map_of (filter (\<lambda>(i, r). P r) xs) k =
     (case map_of xs k of Some r \<Rightarrow> if P r then Some r else None | None \<Rightarrow> None)"
proof (induction xs)
  case Nil
  then show ?case by simp
next
  case (Cons x xs)
  obtain i r where x: "x = (i, r)" by (cases x)
  from Cons.prems x have notin: "i \<notin> fst ` set xs" and d: "distinct (map fst xs)" by simp_all
  have none: "map_of (filter (\<lambda>(i, r). P r) xs) i = None"
    using notin by (auto simp: map_of_eq_None_iff)
  show ?case
    using Cons.IH [OF d] x none by (auto split: option.splits)
qed

lemma create_risk_sets_ok:
  assumes "treatment_col \<in> set (col_names data)" and "time_col \<in> set (col_names data)"
  shows "\<exists>rs. create_risk_sets data treatment_col time_col = Inr rs"
  using assms risk_sets_loop_ok by (simp add: create_risk_sets_def)

lemma create_risk_sets_lookup:
  assumes "treatment_col \<in> set (col_names data)" and "time_col \<in> set (col_names data)"
    and "distinct (map fst (rows data))"
    and "create_risk_sets data treatment_col time_col = Inr rs"
  shows "map_of rs k =
     (case map_of (rows data) k of
        Some r \<Rightarrow> if r treatment_col = Num 1
                  then Some (untreated_index data treatment_col time_col
                              (upcast data time_col (r time_col)))
                  else None
      | None \<Rightarrow> None)"
proof -
  let ?trs = "filter (\<lambda>(i, r). eq_num (r treatment_col) 1) (rows data)"
  have d: "distinct (map fst ?trs)"
    using assms(3) by (simp add: distinct_map_filter)
  have r: "risk_sets_loop data treatment_col time_col ?trs [] = Inr rs"
    using assms(1,4) by (simp add: create_risk_sets_def)
  have m: "map_of ?trs k = (case map_of (rows data) k of
        Some r \<Rightarrow> if r treatment_col = Num 1 then Some r else None | None \<Rightarrow> None)"
    using map_of_filter_snd [OF assms(3), of "\<lambda>r. eq_num (r treatment_col) 1" k]
    by (simp add: eq_num_iff cong: option.case_cong)
  show ?thesis
    using risk_sets_loop_map_of [OF assms(2) d r, of k] m
    by (auto split: option.splits)
qed


lemma risk_sets_loop_keys:
  "risk_sets_loop data treatment_col time_col trs acc = Inr out \<Longrightarrow>
   fst ` set out = fst ` set acc \<union> fst ` set trs"
  by (induction data treatment_col time_col trs acc rule: risk_sets_loop.induct)
     (auto simp: dom_update split: if_splits)

lemma risk_sets_loop_distinct:
  "risk_sets_loop data treatment_col time_col trs acc = Inr out \<Longrightarrow>
   distinct (map fst acc) \<Longrightarrow> distinct (map fst out)"
  by (induction data treatment_col time_col trs acc rule: risk_sets_loop.induct)
     (auto simp: distinct_update split: if_splits)

lemma create_risk_sets_distinct:
  "create_risk_sets data treatment_col time_col = Inr rs \<Longrightarrow> distinct (map fst rs)"
  using risk_sets_loop_distinct [of data treatment_col time_col _ "[]" rs]
  by (auto simp: create_risk_sets_def split: if_splits)

lemma untreated_index_member:
  assumes "distinct (map fst (rows data))" and "(c, crow) \<in> set (rows data)"
  shows "c \<in> set (untreated_index data treatment_col time_col t) \<longleftrightarrow>
         crow treatment_col = Num 0 \<and>
         (\<exists>x y. upcast data time_col (crow time_col) = Num x \<and> t = Num y \<and> y \<le> x)"
proof -
  have same: "r = crow" if "(c, r) \<in> set (rows data)" for r
    using assms that by (meson eq_key_imp_eq_value)
  have "c \<in> set (untreated_index data treatment_col time_col t) \<longleftrightarrow>
        (\<exists>r. (c, r) \<in> set (rows data) \<and> eq_num (r treatment_col) 0 \<and>
             ge_cell (upcast data time_col (r time_col)) t)"
    by (force simp: untreated_index_def)
  also have "\<dots> \<longleftrightarrow> eq_num (crow treatment_col) 0 \<and>
                   ge_cell (upcast data time_col (crow time_col)) t"
    using same assms(2) by blast
  finally show ?thesis by (simp add: eq_num_iff ge_cell_iff)
qed

lemma untreated_index_subset:
  "set (untreated_index data treatment_col time_col t) \<subseteq> fst ` set (rows data)"
  by (auto simp: untreated_index_def)

text \<open>
  What \<^verbatim>\<open>create_risk_sets\<close> computes. In a table with unique labels and both columns
  present, let \<open>t\<close> be a treated row (treatment 1) and \<open>c\<close> any row. A risk set is
  returned for \<open>t\<close>, every member of it is a label of the table, and \<open>c\<close> is a member
  if and only if \<open>c\<close> is untreated (treatment 0) and the time of \<open>c\<close> is greater than or
  equal to the time of \<open>t\<close>, both times taken after the conversion that the frame's
  dtypes bring about.
\<close>

lemma risk_set_members:
  assumes "treatment_col \<in> set (col_names data)" and "time_col \<in> set (col_names data)"
    and "distinct (map fst (rows data))"
    and "(t, trow) \<in> set (rows data)" and "trow treatment_col = Num 1"
    and "(c, crow) \<in> set (rows data)"
  shows "\<exists>rs controls. create_risk_sets data treatment_col time_col = Inr rs \<and>
           map_of rs t = Some controls \<and>
           set controls \<subseteq> fst ` set (rows data) \<and>
           (c \<in> set controls \<longleftrightarrow>
              crow treatment_col = Num 0 \<and>
              (\<exists>x y. upcast data time_col (crow time_col) = Num x \<and>
                     upcast data time_col (trow time_col) = Num y \<and> y \<le> x))"
proof -
  let ?tv = "upcast data time_col (trow time_col)"
  obtain rs where rs: "create_risk_sets data treatment_col time_col = Inr rs"
    using create_risk_sets_ok [OF assms(1,2)] by blast
  have "map_of (rows data) t = Some trow"
    using assms(3,4) by simp
  then have 1: "map_of rs t = Some (untreated_index data treatment_col time_col ?tv)"
    using create_risk_sets_lookup [OF assms(1,2,3) rs, of t] assms(5) by simp
  have 2: "set (untreated_index data treatment_col time_col ?tv) \<subseteq> fst ` set (rows data)"
    by (rule untreated_index_subset)
  have 3: "c \<in> set (untreated_index data treatment_col time_col ?tv) \<longleftrightarrow>
             crow treatment_col = Num 0 \<and>
             (\<exists>x y. upcast data time_col (crow time_col) = Num x \<and> ?tv = Num y \<and> y \<le> x)"
    by (rule untreated_index_member [OF assms(3,6)])
  show ?thesis
    using rs 1 2 3 by simp
qed

text \<open>
  The conversion leaves a time as it is in a frame with no \<^verbatim>\<open>float64\<close> column, in a
  \<^verbatim>\<open>float64\<close> time column, and for an integer below \<open>2 ^ 53\<close> in absolute value.
\<close>

lemma upcast_no_float_column: "\<not> has_float_column data \<Longrightarrow> upcast data col v = v"
  by (simp add: upcast_def)

lemma upcast_float_column: "dtypes data col = Float64 \<Longrightarrow> upcast data col v = v"
  by (simp add: upcast_def)

lemma excess_bits_small: "a < 2 ^ 53 \<Longrightarrow> excess_bits a = 0"
  by (subst excess_bits.simps) simp

lemma float64_of_int_small: "\<bar>n\<bar> < 2 ^ 53 \<Longrightarrow> float64_of_int n = n"
  by (simp add: float64_of_int_def excess_bits_small Let_def mult_sgn_abs)

lemma float64_small:
  assumes "\<bar>x\<bar> < 2 ^ 53"
  shows "float64 x = x"
proof (cases "x \<in> \<int>")
  case True
  then obtain n where n: "x = of_int n" by (auto elim: Ints_cases)
  with assms have "\<bar>n\<bar> < 2 ^ 53"
    by (metis of_int_abs of_int_less_numeral_power_cancel_iff)
  then show ?thesis using n by (simp add: float64_def float64_of_int_small)
next
  case False
  then show ?thesis by (simp add: float64_def)
qed

lemma upcast_small: "\<bar>x\<bar> < 2 ^ 53 \<Longrightarrow> upcast data col (Num x) = Num x"
  by (simp add: upcast_def float64_cell_def float64_small)

lemma upcast_NaN: "upcast data col NaN = NaN"
  by (simp add: upcast_def float64_cell_def)

text \<open>
  Where the conversion changes no time of the table, the risk set of a treated row
  \<open>t\<close> holds exactly the untreated rows whose time is greater than or equal to the time
  of \<open>t\<close>, equal times included.
\<close>

lemma risk_set_membership_exact:
  assumes "treatment_col \<in> set (col_names data)" and "time_col \<in> set (col_names data)"
    and "distinct (map fst (rows data))"
    and "(t, trow) \<in> set (rows data)" and "trow treatment_col = Num 1"
    and "(c, crow) \<in> set (rows data)"
    and "\<And>i r. (i, r) \<in> set (rows data) \<Longrightarrow> upcast data time_col (r time_col) = r time_col"
  shows "\<exists>rs controls. create_risk_sets data treatment_col time_col = Inr rs \<and>
           map_of rs t = Some controls \<and>
           set controls \<subseteq> fst ` set (rows data) \<and>
           (c \<in> set controls \<longleftrightarrow>
              crow treatment_col = Num 0 \<and>
              (\<exists>x y. crow time_col = Num x \<and> trow time_col = Num y \<and> y \<le> x))"
  using risk_set_members [OF assms(1-6)] assms(7) [OF assms(4)] assms(7) [OF assms(6)]
  by simp

lemma risk_set_membership_exact_example:
  "\<exists>rs controls. create_risk_sets example_data ''treatment'' ''time'' = Inr rs \<and>
      map_of rs 3 = Some controls \<and>
      set controls \<subseteq> fst ` set (rows example_data) \<and>
      (4 \<in> set controls \<longleftrightarrow>
         patient (Num 4) (Num 45) (Num 5) (Num 0) (Num 7) ''treatment'' = Num 0 \<and>
         (\<exists>x y. patient (Num 4) (Num 45) (Num 5) (Num 0) (Num 7) ''time'' = Num x \<and>
            patient (Num 3) (Num 40) (Num 4) (Num 1) (Num 6) ''time'' = Num y \<and> y \<le> x))"
proof -
  have h1: "''treatment'' \<in> set (col_names example_data)"
    and h2: "''time'' \<in> set (col_names example_data)"
    and h3: "distinct (map fst (rows example_data))"
    and h4: "(3, patient (Num 3) (Num 40) (Num 4) (Num 1) (Num 6)) \<in> set (rows example_data)"
    and h6: "(4, patient (Num 4) (Num 45) (Num 5) (Num 0) (Num 7)) \<in> set (rows example_data)"
    by (simp_all add: example_data_def)
  have h5: "patient (Num 3) (Num 40) (Num 4) (Num 1) (Num 6) ''treatment'' = Num 1"
    by (simp add: patient_def)
  have "\<not> has_float_column example_data"
    by (simp add: has_float_column_def example_data_def)
  then have h7: "upcast example_data ''time'' (r ''time'') = r ''time''" for r
    by (rule upcast_no_float_column)
  show ?thesis
    by (rule risk_set_membership_exact [OF h1 h2 h3 h4 h5 h6]) (rule h7)
qed

text \<open>
  The conversion at work. \<open>2 ^ 53 + 1 = 9007199254740993\<close> has no \<^verbatim>\<open>float64\<close> of its
  own and becomes \<open>2 ^ 53 = 9007199254740992\<close>.
\<close>

lemma float64_of_int_rounds: "float64_of_int 9007199254740993 = 9007199254740992"
  by code_simp

lemma float64_of_int_keeps: "float64_of_int 9007199254740992 = 9007199254740992"
  by code_simp

lemma float64_rounds: "float64 9007199254740993 = 9007199254740992"
  by (simp add: float64_def float64_of_int_rounds)

lemma float64_keeps: "float64 9007199254740992 = 9007199254740992"
  by (simp add: float64_def float64_of_int_keeps)

text \<open>
  Claim C3 fails for the code. The table has a \<^verbatim>\<open>float64\<close> column \<^verbatim>\<open>age\<close> and the
  \<^verbatim>\<open>int64\<close> columns \<^verbatim>\<open>treatment\<close> and \<^verbatim>\<open>time\<close>. Row 0 is treated at time
  \<open>2 ^ 53 + 1\<close>; row 1 is untreated and observed at time \<open>2 ^ 53\<close>, before the
  treatment. \<^verbatim>\<open>create_risk_sets\<close> returns \<^verbatim>\<open>{0: [1]}\<close>: the treatment time read from
  the row has become \<open>2 ^ 53\<close>, and row 1 is in the risk set of row 0 although its time
  is less than the treatment time.
\<close>

theorem risk_set_admits_earlier_control:
  "create_risk_sets
     \<lparr>col_names = [''age'', ''treatment'', ''time''],
      rows = [(0, patient NaN (Num (61 / 2)) NaN (Num 1) (Num 9007199254740993)),
              (1, patient NaN (Num (83 / 2)) NaN (Num 0) (Num 9007199254740992))],
      dtypes = (\<lambda>c. if c = ''age'' then Float64 else Int64)\<rparr>
     ''treatment'' ''time'' = Inr [(0, [1])] \<and>
   patient NaN (Num (83 / 2)) NaN (Num 0) (Num 9007199254740992) ''treatment'' = Num 0 \<and>
   patient NaN (Num (83 / 2)) NaN (Num 0) (Num 9007199254740992) ''time'' = Num 9007199254740992 \<and>
   patient NaN (Num (61 / 2)) NaN (Num 1) (Num 9007199254740993) ''time'' = Num 9007199254740993 \<and>
   (9007199254740992 :: real) < 9007199254740993"
  by (simp add: patient_def create_risk_sets_def untreated_index_def eq_num_def ge_cell_def
      upcast_def has_float_column_def float64_cell_def float64_rounds float64_keeps)

text \<open>
  Claim C10. In a table with unique labels and both columns present, a row whose
  treatment value is neither 1 nor 0 is passed over silently: \<^verbatim>\<open>create_risk_sets\<close>
  returns a dict (no error), the row's label is not a key of it and is a member of none
  of its risk sets.
\<close>

theorem unrecognized_treatment_excluded:
  assumes "treatment_col \<in> set (col_names data)" and "time_col \<in> set (col_names data)"
    and "distinct (map fst (rows data))"
    and "(i, r) \<in> set (rows data)"
    and "r treatment_col \<noteq> Num 1" and "r treatment_col \<noteq> Num 0"
  shows "\<exists>rs. create_risk_sets data treatment_col time_col = Inr rs \<and>
           i \<notin> fst ` set rs \<and> (\<forall>(t, controls) \<in> set rs. i \<notin> set controls)"
proof -
  obtain rs where rs: "create_risk_sets data treatment_col time_col = Inr rs"
    using create_risk_sets_ok [OF assms(1,2)] by blast
  have row: "map_of (rows data) i = Some r"
    using assms(3,4) by simp
  have "map_of rs i = None"
    using create_risk_sets_lookup [OF assms(1,2,3) rs, of i] row assms(5) by simp
  then have key: "i \<notin> fst ` set rs"
    by (simp add: map_of_eq_None_iff)
  have "i \<notin> set controls" if "(t, controls) \<in> set rs" for t controls
  proof -
    have "map_of rs t = Some controls"
      using that create_risk_sets_distinct [OF rs] by simp
    then obtain tv where "controls = untreated_index data treatment_col time_col tv"
      using create_risk_sets_lookup [OF assms(1,2,3) rs, of t]
      by (auto split: option.splits if_splits)
    then show ?thesis
      using untreated_index_member [OF assms(3,4), of treatment_col time_col tv] assms(6)
      by simp
  qed
  with rs key show ?thesis by auto
qed

theorem unrecognized_treatment_excluded_witness:
  "''treatment'' \<in> set [''treatment'', ''time''] \<and> ''time'' \<in> set [''treatment'', ''time''] \<and>
   distinct (map fst [(0::label, patient NaN NaN NaN (Num 1) (Num 5)),
                      (1, patient NaN NaN NaN (Num 2) (Num 7)),
                      (2, patient NaN NaN NaN (Num 0) (Num 6))]) \<and>
   patient NaN NaN NaN (Num 2) (Num 7) ''treatment'' \<noteq> Num 1 \<and>
   patient NaN NaN NaN (Num 2) (Num 7) ''treatment'' \<noteq> Num 0 \<and>
   (\<exists>rs. create_risk_sets
            \<lparr>col_names = [''treatment'', ''time''],
             rows = [(0, patient NaN NaN NaN (Num 1) (Num 5)),
                     (1, patient NaN NaN NaN (Num 2) (Num 7)),
                     (2, patient NaN NaN NaN (Num 0) (Num 6))],
             dtypes = (\<lambda>c. Int64)\<rparr>
            ''treatment'' ''time'' = Inr rs \<and>
      1 \<notin> fst ` set rs \<and> (\<forall>(t, controls) \<in> set rs. 1 \<notin> set controls))"
proof -
  let ?data = "\<lparr>col_names = [''treatment'', ''time''],
                rows = [(0, patient NaN NaN NaN (Num 1) (Num 5)),
                        (1, patient NaN NaN NaN (Num 2) (Num 7)),
                        (2, patient NaN NaN NaN (Num 0) (Num 6))],
             dtypes = (\<lambda>c. Int64)\<rparr>"
  have h1: "''treatment'' \<in> set (col_names ?data)" and h2: "''time'' \<in> set (col_names ?data)"
    and h3: "distinct (map fst (rows ?data))"
    and h4: "(1, patient NaN NaN NaN (Num 2) (Num 7)) \<in> set (rows ?data)"
    by simp_all
  have h5: "patient NaN NaN NaN (Num 2) (Num 7) ''treatment'' \<noteq> Num 1"
    and h6: "patient NaN NaN NaN (Num 2) (Num 7) ''treatment'' \<noteq> Num 0"
    by (simp_all add: patient_def)
  from unrecognized_treatment_excluded [OF h1 h2 h3 h4 h5 h6] h3 h5 h6
  show ?thesis by simp
qed

text \<open>
  Claim C8, as amended. \<^verbatim>\<open>create_risk_sets\<close> validates no cell: whenever the two named
  columns exist it returns a dict, whatever the treatment and time columns hold (values
  other than 0 and 1, missing times), with one key for each row whose treatment is 1.
\<close>

theorem create_risk_sets_no_validation:
  assumes "treatment_col \<in> set (col_names data)" and "time_col \<in> set (col_names data)"
  shows "\<exists>rs. create_risk_sets data treatment_col time_col = Inr rs \<and>
           fst ` set rs = {i. \<exists>r. (i, r) \<in> set (rows data) \<and> r treatment_col = Num 1}"
proof -
  obtain rs where rs: "create_risk_sets data treatment_col time_col = Inr rs"
    using create_risk_sets_ok [OF assms] by blast
  have "fst ` set rs = fst ` set (filter (\<lambda>(i, r). eq_num (r treatment_col) 1) (rows data))"
    using rs assms(1) risk_sets_loop_keys [of data treatment_col time_col _ "[]" rs]
    by (simp add: create_risk_sets_def)
  also have "\<dots> = {i. \<exists>r. (i, r) \<in> set (rows data) \<and> r treatment_col = Num 1}"
    by (force simp: eq_num_iff)
  finally show ?thesis using rs by simp
qed


theorem create_risk_sets_no_validation_witness:
  "''treatment'' \<in> set [''treatment'', ''time''] \<and> ''time'' \<in> set [''treatment'', ''time''] \<and>
   (\<exists>rs. create_risk_sets
            \<lparr>col_names = [''treatment'', ''time''],
             rows = [(0, patient NaN NaN NaN (Num 1) (Num 5)),
                     (1, patient NaN NaN NaN (Num 2) (Num 7)),
                     (2, patient NaN NaN NaN (Num 0) NaN)],
             dtypes = (\<lambda>c. if c = ''time'' then Float64 else Int64)\<rparr>
            ''treatment'' ''time'' = Inr rs \<and>
      fst ` set rs =
        {i. \<exists>r. (i, r) \<in> set [(0, patient NaN NaN NaN (Num 1) (Num 5)),
                               (1, patient NaN NaN NaN (Num 2) (Num 7)),
                               (2, patient NaN NaN NaN (Num 0) NaN)] \<and>
                 r ''treatment'' = Num 1})"
proof -
  let ?data = "\<lparr>col_names = [''treatment'', ''time''],
                rows = [(0, patient NaN NaN NaN (Num 1) (Num 5)),
                        (1, patient NaN NaN NaN (Num 2) (Num 7)),
                        (2, patient NaN NaN NaN (Num 0) NaN)],
             dtypes = (\<lambda>c. if c = ''time'' then Float64 else Int64)\<rparr>"
  have h1: "''treatment'' \<in> set (col_names ?data)" and h2: "''time'' \<in> set (col_names ?data)"
    by simp_all
  from create_risk_sets_no_validation [OF h1 h2]
  show ?thesis by simp
qed

text \<open>
  Claim C8 as stated fails: a table with the treatment value 2 and with a missing time
  raises nothing; \<^verbatim>\<open>create_risk_sets\<close> returns the risk sets of the treated row.
\<close>

theorem create_risk_sets_raises_counterexample:
  "create_risk_sets
     \<lparr>col_names = [''treatment'', ''time''],
      rows = [(0, patient NaN NaN NaN (Num 1) (Num 5)),
              (1, patient NaN NaN NaN (Num 2) (Num 7)),
              (2, patient NaN NaN NaN (Num 0) NaN),
              (3, patient NaN NaN NaN (Num 0) (Num 6))],
      dtypes = (\<lambda>c. if c = ''time'' then Float64 else Int64)\<rparr>
     ''treatment'' ''time'' = Inr [(0, [3])]"
  by (simp add: patient_def create_risk_sets_def untreated_index_def eq_num_def ge_cell_def
      upcast_def has_float_column_def)


text \<open>The risk sets of the example cohort, as the notebook computes them.\<close>

lemma example_risk_sets:
  "create_risk_sets example_data ''treatment'' ''time'' = Inr [(3, [4, 5, 6, 8, 9]), (7, [8, 9])]"
  by (simp add: example_data_def patient_def create_risk_sets_def untreated_index_def
      eq_num_def ge_cell_def upcast_def has_float_column_def)

section \<open>Properties of calculate_mahalanobis_matrix\<close>

lemma dot_uminus_left: "dot (map uminus a) b = - dot a b"
proof (induction a arbitrary: b)
  case Nil
  then show ?case by (simp add: dot_def)
next
  case (Cons x a)
  then show ?case by (cases b) (simp_all add: dot_def)
qed

lemma dot_uminus_right: "dot a (map uminus b) = - dot a b"
proof (induction a arbitrary: b)
  case Nil
  then show ?case by (simp add: dot_def)
next
  case (Cons x a)
  then show ?case by (cases b) (simp_all add: dot_def)
qed

lemma dot_vec_mat_uminus: "dot_vec_mat (map uminus d) A = map uminus (dot_vec_mat d A)"
  by (simp add: dot_vec_mat_def dot_uminus_left)

lemma delta_swap: "map2 (-) v u = map uminus (map2 (-) u (v::real list))"
proof (induction u arbitrary: v)
  case Nil
  then show ?case by simp
next
  case (Cons x u)
  then show ?case by (cases v) simp_all
qed

lemma quadratic_form_uminus:
  "dot (dot_vec_mat (map uminus d) VI) (map uminus d) = dot (dot_vec_mat d VI) d"
  by (simp only: dot_vec_mat_uminus dot_uminus_left dot_uminus_right minus_minus)

lemma mahalanobis_commute: "mahalanobis u v VI = mahalanobis v u VI"
proof -
  have sw: "map2 (-) v u = map uminus (map2 (-) u v)" by (rule delta_swap)
  show ?thesis
    unfolding mahalanobis_def sw Let_def quadratic_form_uminus by simp
qed

lemma dot_zero_right: "dot w (map (\<lambda>x. 0) u) = 0"
proof (induction w arbitrary: u)
  case Nil
  then show ?case by (simp add: dot_def)
next
  case (Cons x w)
  then show ?case by (cases u) (simp_all add: dot_def)
qed

lemma delta_same: "map2 (-) u u = map (\<lambda>x. 0::real) u"
  by (induction u) simp_all

lemma mahalanobis_same:
  assumes "length u = length VI" and "\<forall>row \<in> set VI. length row = length u"
  shows "mahalanobis u u VI = Inr (Num 0)"
  using assms by (simp add: mahalanobis_def delta_same dot_zero_right)

lemma mahalanobis_ok:
  assumes "length u = length VI" and "length v = length VI"
    and "\<forall>row \<in> set VI. length row = length VI"
  shows "\<exists>d. mahalanobis u v VI = Inr d"
  using assms by (simp add: mahalanobis_def Let_def)

lemma loc_row:
  assumes "i \<in> set (data_index data)"
  shows "\<exists>r. loc data i = Inr (map r (col_names data))"
proof -
  from assms obtain r where "map_of (rows data) i = Some r"
    by (metis data_index_def map_of_eq_None_iff not_Some_eq set_map)
  then show ?thesis by (auto simp: loc_def)
qed

lemma pair_distance_ok:
  assumes "linalg_inv cov_matrix = Inr VI"
    and "length VI = length (col_names data)"
    and "\<forall>row \<in> set VI. length row = length (col_names data)"
    and "i \<in> set (data_index data)" and "j \<in> set (data_index data)"
  shows "\<exists>d. pair_distance linalg_inv data cov_matrix i j = Inr d"
proof -
  obtain ri where ri: "loc data i = Inr (map ri (col_names data))"
    using loc_row [OF assms(4)] by blast
  obtain rj where rj: "loc data j = Inr (map rj (col_names data))"
    using loc_row [OF assms(5)] by blast
  have "\<exists>d. mahalanobis (map ri (col_names data)) (map rj (col_names data)) VI = Inr d"
    by (rule mahalanobis_ok) (use assms(2,3) in simp_all)
  then show ?thesis
    by (simp add: pair_distance_def ri rj assms(1))
qed

lemma pair_distance_commute:
  "pair_distance linalg_inv data cov_matrix i j = Inr d \<Longrightarrow>
   pair_distance linalg_inv data cov_matrix j i = Inr d"
  by (auto simp: pair_distance_def mahalanobis_commute split: sum.splits)

lemma pair_distance_same:
  assumes "linalg_inv cov_matrix = Inr VI"
    and "length VI = length (col_names data)"
    and "\<forall>row \<in> set VI. length row = length (col_names data)"
    and "i \<in> set (data_index data)"
  shows "pair_distance linalg_inv data cov_matrix i i = Inr (Num 0)"
proof -
  obtain ri where ri: "loc data i = Inr (map ri (col_names data))"
    using loc_row [OF assms(4)] by blast
  have "mahalanobis (map ri (col_names data)) (map ri (col_names data)) VI = Inr (Num 0)"
    by (rule mahalanobis_same) (use assms(2,3) in simp_all)
  then show ?thesis
    by (simp add: pair_distance_def ri assms(1))
qed

lemma distance_row_result:
  assumes "\<forall>j \<in> set js. pair_distance linalg_inv data cov_matrix i j = Inr (f i j)"
  shows "distance_row linalg_inv data cov_matrix i js M =
         Inr (\<lambda>(a, b). if a = i \<and> b \<in> set js then Some (f a b) else M (a, b))"
  using assms
proof (induction js arbitrary: M)
  case Nil
  then show ?case by simp
next
  case (Cons j js)
  have "distance_row linalg_inv data cov_matrix i js (M((i, j) \<mapsto> f i j)) =
        Inr (\<lambda>(a, b). if a = i \<and> b \<in> set js then Some (f a b) else (M((i, j) \<mapsto> f i j)) (a, b))"
    using Cons.IH Cons.prems by simp
  moreover have "(\<lambda>(a, b). if a = i \<and> b \<in> set js then Some (f a b) else (M((i, j) \<mapsto> f i j)) (a, b))
     = (\<lambda>(a, b). if a = i \<and> b \<in> set (j # js) then Some (f a b) else M (a, b))"
    by (auto simp: fun_eq_iff)
  ultimately show ?case using Cons.prems by simp
qed

lemma distance_rows_result:
  assumes "\<forall>i \<in> set is. \<forall>j \<in> set (data_index data).
             pair_distance linalg_inv data cov_matrix i j = Inr (f i j)"
  shows "distance_rows linalg_inv data cov_matrix is M =
         Inr (\<lambda>(a, b). if a \<in> set is \<and> b \<in> set (data_index data) then Some (f a b) else M (a, b))"
  using assms
proof (induction "is" arbitrary: M)
  case Nil
  then show ?case by simp
next
  case (Cons i "is")
  let ?M = "\<lambda>(a, b). if a = i \<and> b \<in> set (data_index data) then Some (f a b) else M (a, b)"
  have row: "distance_row linalg_inv data cov_matrix i (data_index data) M = Inr ?M"
    by (rule distance_row_result) (use Cons.prems in simp)
  have "distance_rows linalg_inv data cov_matrix is ?M =
        Inr (\<lambda>(a, b). if a \<in> set is \<and> b \<in> set (data_index data) then Some (f a b) else ?M (a, b))"
    using Cons.IH Cons.prems by simp
  moreover have "(\<lambda>(a, b). if a \<in> set is \<and> b \<in> set (data_index data) then Some (f a b) else ?M (a, b))
     = (\<lambda>(a, b). if a \<in> set (i # is) \<and> b \<in> set (data_index data) then Some (f a b) else M (a, b))"
    by (auto simp: fun_eq_iff)
  ultimately show ?case using row by simp
qed

lemma calculate_mahalanobis_matrix_entries:
  assumes "\<forall>i \<in> set (data_index data). \<forall>j \<in> set (data_index data).
             pair_distance linalg_inv data cov_matrix i j = Inr (f i j)"
  shows "calculate_mahalanobis_matrix linalg_inv data cov_matrix =
         Inr (\<lambda>(a, b). if a \<in> set (data_index data) \<and> b \<in> set (data_index data)
                         then Some (f a b) else None)"
proof -
  have "calculate_mahalanobis_matrix linalg_inv data cov_matrix =
    Inr (\<lambda>(a, b). if a \<in> set (data_index data) \<and> b \<in> set (data_index data)
                    then Some (f a b) else empty_frame (data_index data) (a, b))"
    unfolding calculate_mahalanobis_matrix_def
    by (rule distance_rows_result) (use assms in simp)
  moreover have "(\<lambda>(a, b). if a \<in> set (data_index data) \<and> b \<in> set (data_index data)
                    then Some (f a b) else empty_frame (data_index data) (a, b))
    = (\<lambda>(a, b). if a \<in> set (data_index data) \<and> b \<in> set (data_index data)
                         then Some (f a b) else None)"
    by (auto simp: fun_eq_iff empty_frame_def)
  ultimately show ?thesis by simp
qed

text \<open>
  Claim C6. For a covariate table with unique labels and a covariance matrix that numpy
  inverts, the inverse having one row and one column for each covariate,
  \<^verbatim>\<open>calculate_mahalanobis_matrix\<close> returns a frame in which the entries \<open>(i, j)\<close>
  and \<open>(j, i)\<close> are the same for all subjects \<open>i\<close> and \<open>j\<close>, and every diagonal
  entry is the number 0. The two entries come from the same quadratic form; were it
  negative, both would be NaN, which \<open>mahalanobis_matrix_entries_numbers\<close> below rules
  out for a positive semidefinite covariance matrix.
\<close>

theorem mahalanobis_matrix_symmetric_zero_diagonal:
  assumes "distinct (data_index data)"
    and "linalg_inv cov_matrix = Inr VI"
    and "length VI = length (col_names data)"
    and "\<forall>row \<in> set VI. length row = length (col_names data)"
  shows "\<exists>dist_matrix. calculate_mahalanobis_matrix linalg_inv data cov_matrix = Inr dist_matrix \<and>
           (\<forall>i \<in> set (data_index data). \<forall>j \<in> set (data_index data).
              (\<exists>d. dist_matrix (i, j) = Some d \<and> dist_matrix (j, i) = Some d)) \<and>
           (\<forall>i \<in> set (data_index data). dist_matrix (i, i) = Some (Num 0))"
proof -
  let ?idx = "data_index data"
  define f where "f i j = projr (pair_distance linalg_inv data cov_matrix i j)" for i j
  have pd: "pair_distance linalg_inv data cov_matrix i j = Inr (f i j)"
    if "i \<in> set ?idx" "j \<in> set ?idx" for i j
    using pair_distance_ok [of linalg_inv cov_matrix VI data i j] assms(2,3,4) that
    by (auto simp: f_def)
  have sym: "f i j = f j i" if "i \<in> set ?idx" "j \<in> set ?idx" for i j
    using pair_distance_commute [OF pd [OF that]] pd [OF that(2,1)] by simp
  have diag: "f i i = Num 0" if "i \<in> set ?idx" for i
    using pair_distance_same [of linalg_inv cov_matrix VI data i] assms(2,3,4) that
      pd [OF that that] by simp
  have res: "calculate_mahalanobis_matrix linalg_inv data cov_matrix =
    Inr (\<lambda>(a, b). if a \<in> set ?idx \<and> b \<in> set ?idx then Some (f a b) else None)"
    by (rule calculate_mahalanobis_matrix_entries) (use pd in simp)
  show ?thesis
    unfolding res using sym diag by simp
qed

theorem mahalanobis_matrix_symmetric_zero_diagonal_witness:
  "distinct (data_index \<lparr>col_names = [''age'', ''severity''],
                          rows = [(3, \<lambda>c. if c = ''age'' then 40 else 4),
                                  (4, \<lambda>c. if c = ''age'' then 45 else 5)]\<rparr>) \<and>
   (\<lambda>m. if m = [[4, 0], [0, 1]] then Inr [[1 / 4, 0], [0, 1]] else Inl LinAlgError)
     [[4, 0], [0, 1]] = Inr [[1 / 4, 0], [0, 1]] \<and>
   length [[1 / 4, 0], [0, 1 :: real]] = length [''age'', ''severity''] \<and>
   (\<exists>dist_matrix.
      calculate_mahalanobis_matrix
        (\<lambda>m. if m = [[4, 0], [0, 1]] then Inr [[1 / 4, 0], [0, 1]] else Inl LinAlgError)
        \<lparr>col_names = [''age'', ''severity''],
         rows = [(3, \<lambda>c. if c = ''age'' then 40 else 4),
                 (4, \<lambda>c. if c = ''age'' then 45 else 5)]\<rparr>
        [[4, 0], [0, 1]] = Inr dist_matrix \<and>
      (\<forall>i \<in> {3, 4}. \<forall>j \<in> {3, 4}.
         (\<exists>d. dist_matrix (i, j) = Some d \<and> dist_matrix (j, i) = Some d)) \<and>
      (\<forall>i \<in> {3, 4}. dist_matrix (i, i) = Some (Num 0)))"
proof -
  let ?data = "\<lparr>col_names = [''age'', ''severity''],
                rows = [(3, \<lambda>c. if c = ''age'' then 40 else 4),
                        (4, \<lambda>c. if c = ''age'' then 45 else (5::real))]\<rparr>"
  let ?inv = "\<lambda>m. if m = [[4, 0], [0, 1]] then Inr [[1 / 4, 0], [0, 1 :: real]] else Inl LinAlgError"
  have h1: "distinct (data_index ?data)" by (simp add: data_index_def)
  have h2: "?inv [[4, 0], [0, 1]] = Inr [[1 / 4, 0], [0, 1]]" by simp
  note inst = mahalanobis_matrix_symmetric_zero_diagonal
    [where data = ?data and linalg_inv = ?inv and cov_matrix = "[[4, 0], [0, 1]]"
       and VI = "[[1 / 4, 0], [0, 1]]"]
  have h3: "length [[1 / 4, 0], [0, 1 :: real]] = length (col_names ?data)" by simp
  have h4: "\<forall>row \<in> set [[1 / 4, 0], [0, 1 :: real]]. length row = length (col_names ?data)"
    by simp
  from inst h1 h2 h3 h4
  show ?thesis by (simp add: data_index_def)
qed

lemma dot_commute: "dot a b = dot b a"
proof (induction a arbitrary: b)
  case Nil
  then show ?case by (simp add: dot_def)
next
  case (Cons x a)
  then show ?case by (cases b) (simp_all add: dot_def)
qed

lemma length_transpose_square:
  fixes A :: matrix
  assumes "\<forall>row \<in> set A. length row = length A"
  shows "length (transpose A) = length A"
proof -
  have "foldr (\<lambda>xs. max (length xs)) B 0 = (if B = [] then 0 else n)"
    if "\<forall>row \<in> set B. length row = n" for B :: "real list list" and n
    using that by (induction B) auto
  from this [OF assms] show ?thesis
    by (simp add: length_transpose)
qed

lemma mahalanobis_number:
  assumes "length u = length VI" and "length v = length VI"
    and "\<forall>row \<in> set VI. length row = length VI"
    and inverse: "\<forall>d. length d = length VI \<longrightarrow> dot_vec_mat (dot_vec_mat d VI) cov_matrix = d"
    and psd: "\<forall>w. length w = length VI \<longrightarrow> 0 \<le> dot (dot_vec_mat w cov_matrix) w"
  shows "\<exists>x. mahalanobis u v VI = Inr (Num x) \<and> 0 \<le> x"
proof -
  let ?d = "map2 (-) u v"
  let ?w = "dot_vec_mat ?d VI"
  have ld: "length ?d = length VI" using assms(1,2) by simp
  have lw: "length ?w = length VI"
    using length_transpose_square [OF assms(3)] by (simp add: dot_vec_mat_def)
  have "dot ?w ?d = dot ?w (dot_vec_mat ?w cov_matrix)"
    using inverse ld by simp
  also have "\<dots> = dot (dot_vec_mat ?w cov_matrix) ?w" by (rule dot_commute)
  finally have "0 \<le> dot ?w ?d" using psd lw by simp
  then show ?thesis
    using ld assms(3) by (simp add: mahalanobis_def Let_def)
qed


text \<open>
  When the covariance matrix is positive semidefinite and \<open>VI\<close> is its inverse (a
  vector multiplied by \<open>VI\<close> and then by the covariance matrix is the vector again),
  the quadratic form is never negative, so every entry of the frame is a number: no
  entry is NaN.
\<close>

lemma mahalanobis_matrix_entries_numbers:
  assumes "distinct (data_index data)"
    and "linalg_inv cov_matrix = Inr VI"
    and "length VI = length (col_names data)"
    and "\<forall>row \<in> set VI. length row = length (col_names data)"
    and "\<forall>d. length d = length VI \<longrightarrow> dot_vec_mat (dot_vec_mat d VI) cov_matrix = d"
    and "\<forall>w. length w = length VI \<longrightarrow> 0 \<le> dot (dot_vec_mat w cov_matrix) w"
  shows "\<exists>dist_matrix. calculate_mahalanobis_matrix linalg_inv data cov_matrix = Inr dist_matrix \<and>
           (\<forall>i \<in> set (data_index data). \<forall>j \<in> set (data_index data).
              \<exists>x. dist_matrix (i, j) = Some (Num x) \<and> 0 \<le> x)"
proof -
  let ?idx = "data_index data"
  have num: "\<exists>x. pair_distance linalg_inv data cov_matrix i j = Inr (Num x) \<and> 0 \<le> x"
    if ij: "i \<in> set ?idx" "j \<in> set ?idx" for i j
  proof -
    obtain ri where ri: "loc data i = Inr (map ri (col_names data))"
      using loc_row [OF ij(1)] by blast
    obtain rj where rj: "loc data j = Inr (map rj (col_names data))"
      using loc_row [OF ij(2)] by blast
    have "\<exists>x. mahalanobis (map ri (col_names data)) (map rj (col_names data)) VI = Inr (Num x)
            \<and> 0 \<le> x"
      by (rule mahalanobis_number [where cov_matrix = cov_matrix]) (use assms(3-6) in simp_all)
    then show ?thesis
      by (simp add: pair_distance_def ri rj assms(2))
  qed
  define f where "f i j = projr (pair_distance linalg_inv data cov_matrix i j)" for i j
  have pd: "pair_distance linalg_inv data cov_matrix i j = Inr (f i j)"
    if "i \<in> set ?idx" "j \<in> set ?idx" for i j
    using num [OF that] by (auto simp: f_def)
  have fnum: "\<exists>x. f i j = Num x \<and> 0 \<le> x" if "i \<in> set ?idx" "j \<in> set ?idx" for i j
    using num [OF that] pd [OF that] by auto
  have res: "calculate_mahalanobis_matrix linalg_inv data cov_matrix =
    Inr (\<lambda>(a, b). if a \<in> set ?idx \<and> b \<in> set ?idx then Some (f a b) else None)"
    by (rule calculate_mahalanobis_matrix_entries) (use pd in simp)
  show ?thesis
    unfolding res using fnum by simp
qed

text \<open>
  The lemma applies to the covariance matrix with the diagonal 4 and 1 and its inverse:
  the distance between the patients 3 and 4 of the example is a number.
\<close>

lemma length_two: "length d = Suc (Suc 0) \<longleftrightarrow> (\<exists>a b. d = [a, b])"
  by (auto simp: length_Suc_conv)

lemma mahalanobis_matrix_entries_numbers_example:
  "\<exists>dist_matrix.
     calculate_mahalanobis_matrix
       (\<lambda>m. if m = [[4, 0], [0, 1]] then Inr [[1 / 4, 0], [0, 1]] else Inl LinAlgError)
       \<lparr>col_names = [''age'', ''severity''],
        rows = [(3, \<lambda>c. if c = ''age'' then 40 else 4),
                (4, \<lambda>c. if c = ''age'' then 45 else 5)]\<rparr>
       [[4, 0], [0, 1]] = Inr dist_matrix \<and>
     (\<exists>x. dist_matrix (3, 4) = Some (Num x) \<and> 0 \<le> x)"
proof -
  let ?data = "\<lparr>col_names = [''age'', ''severity''],
                rows = [(3, \<lambda>c. if c = ''age'' then 40 else 4),
                        (4, \<lambda>c. if c = ''age'' then 45 else (5::real))]\<rparr>"
  let ?inv = "\<lambda>m. if m = [[4, 0], [0, 1]] then Inr [[1 / 4, 0], [0, 1 :: real]] else Inl LinAlgError"
  let ?VI = "[[1 / 4, 0], [0, 1 :: real]]"
  let ?cov = "[[4, 0], [0, 1 :: real]]"
  have h1: "distinct (data_index ?data)" by (simp add: data_index_def)
  have h2: "?inv ?cov = Inr ?VI" by simp
  have h3: "length ?VI = length (col_names ?data)" by simp
  have h4: "\<forall>row \<in> set ?VI. length row = length (col_names ?data)" by simp
  have h5: "\<forall>d. length d = length ?VI \<longrightarrow> dot_vec_mat (dot_vec_mat d ?VI) ?cov = d"
    by (auto simp: length_two dot_vec_mat_def dot_def)
  have h6: "\<forall>w. length w = length ?VI \<longrightarrow> 0 \<le> dot (dot_vec_mat w ?cov) w"
    by (auto simp: length_two dot_vec_mat_def dot_def)
  note inst = mahalanobis_matrix_entries_numbers
    [where data = ?data and linalg_inv = ?inv and cov_matrix = ?cov and VI = ?VI]
  from inst [OF h1 h2 h3 h4 h5 h6] show ?thesis by (auto simp: data_index_def)
qed

section \<open>Properties of optimal_balanced_matching\<close>

subsection \<open>The program that is built\<close>

lemma objective_terms_ok:
  "\<forall>v \<in> set vs. distance_matrix v \<noteq> None \<Longrightarrow>
   objective_terms distance_matrix vs = Inr (map (\<lambda>v. (v, distance_of distance_matrix v)) vs)"
  by (induction distance_matrix vs rule: objective_terms.induct)
     (auto simp: distance_of_def)

lemma objective_terms_Inr:
  "objective_terms distance_matrix vs = Inr terms \<Longrightarrow>
   terms = map (\<lambda>v. (v, distance_of distance_matrix v)) vs"
  by (induction distance_matrix vs arbitrary: terms rule: objective_terms.induct)
     (auto simp: distance_of_def split: option.splits sum.splits)

lemma matching_problem_Inr:
  assumes "matching_problem distance_matrix risk_sets = Inr prob"
  shows "variables prob = remdups (risk_pairs risk_sets)"
    and "objective prob = map (\<lambda>v. (v, distance_of distance_matrix v)) (risk_pairs risk_sets)"
    and "constraints prob = treated_constraints risk_sets @ control_constraints risk_sets"
  using assms objective_terms_Inr [of distance_matrix "risk_pairs risk_sets"]
  by (auto simp: matching_problem_def split: sum.splits)

lemma matching_problem_ok:
  assumes "\<forall>v \<in> set (risk_pairs risk_sets). distance_matrix v \<noteq> None"
  shows "\<exists>prob. matching_problem distance_matrix risk_sets = Inr prob"
  using objective_terms_ok [OF assms] by (simp add: matching_problem_def)

lemma objective_value_pairs:
  assumes "matching_problem distance_matrix risk_sets = Inr prob"
  shows "objective_value prob x =
         (\<Sum>v \<leftarrow> risk_pairs risk_sets. x v * distance_of distance_matrix v)"
  by (simp add: objective_value_def matching_problem_Inr(2) [OF assms] o_def)

lemma sum_list_risk_pairs:
  "(\<Sum>v \<leftarrow> risk_pairs risk_sets. g v) =
   (\<Sum>(t, controls) \<leftarrow> risk_sets. \<Sum>c \<leftarrow> controls. (g (t, c) :: real))"
  by (induction risk_sets) (auto simp: risk_pairs_def o_def)

lemma set_risk_pairs:
  "(t, c) \<in> set (risk_pairs risk_sets) \<longleftrightarrow>
   (\<exists>controls. (t, controls) \<in> set risk_sets \<and> c \<in> set controls)"
  by (auto simp: risk_pairs_def)

subsection \<open>Sums of zeros and ones\<close>

lemma sum_list_all_zero:
  "\<forall>c \<in> set cs. x c = (0::real) \<Longrightarrow> (\<Sum>c \<leftarrow> cs. x c * g c) = 0"
  by (induction cs) auto

lemma sum_list_pick:
  assumes "distinct cs" and "c0 \<in> set cs"
    and "\<forall>c \<in> set cs. x c = (if c = c0 then 1 else (0::real))"
  shows "(\<Sum>c \<leftarrow> cs. x c * g c) = g c0"
  using assms
proof (induction cs)
  case Nil
  then show ?case by simp
next
  case (Cons a cs)
  show ?case
  proof (cases "a = c0")
    case True
    with Cons.prems have "\<forall>c \<in> set cs. x c = 0" by auto
    then have "(\<Sum>c \<leftarrow> cs. x c * g c) = 0" by (rule sum_list_all_zero)
    with True Cons.prems show ?thesis by simp
  next
    case False
    with Cons.prems have "(\<Sum>c \<leftarrow> cs. x c * g c) = g c0"
      by (intro Cons.IH) auto
    with False Cons.prems show ?thesis by simp
  qed
qed

lemma binary_sum_zero:
  assumes "\<forall>c \<in> set cs. x c = 0 \<or> x c = (1::real)" and "(\<Sum>c \<leftarrow> cs. x c) = 0"
  shows "\<forall>c \<in> set cs. x c = 0"
  using assms
proof (induction cs)
  case Nil
  then show ?case by simp
next
  case (Cons a cs)
  have nonneg: "0 \<le> (\<Sum>c \<leftarrow> cs. x c)"
    using Cons.prems(1) by (intro sum_list_nonneg) auto
  have "0 \<le> x a" using Cons.prems(1) by auto
  with nonneg Cons.prems(2) have "x a = 0" and "(\<Sum>c \<leftarrow> cs. x c) = 0" by simp_all
  with Cons show ?case by simp
qed

lemma binary_sum_one:
  assumes "\<forall>c \<in> set cs. x c = 0 \<or> x c = (1::real)" and "(\<Sum>c \<leftarrow> cs. x c) = 1"
  shows "\<exists>c0 \<in> set cs. \<forall>c \<in> set cs. x c = (if c = c0 then 1 else 0)"
  using assms
proof (induction cs)
  case Nil
  then show ?case by simp
next
  case (Cons a cs)
  show ?case
  proof (cases "x a = 1")
    case True
    with Cons.prems have "(\<Sum>c \<leftarrow> cs. x c) = 0" by simp
    with Cons.prems(1) have "\<forall>c \<in> set cs. x c = 0"
      by (intro binary_sum_zero) auto
    with True show ?thesis by (intro bexI [of _ a]) auto
  next
    case False
    with Cons.prems have a0: "x a = 0" by auto
    with Cons.prems have "(\<Sum>c \<leftarrow> cs. x c) = 1" by simp
    with Cons.IH Cons.prems(1) obtain c0 where
      c0: "c0 \<in> set cs" "\<forall>c \<in> set cs. x c = (if c = c0 then 1 else 0)" by auto
    with a0 have "c0 \<noteq> a" by auto
    with c0 a0 show ?thesis by (intro bexI [of _ c0]) auto
  qed
qed

lemma member_le_sum_list_real:
  assumes "\<forall>t \<in> set ts. 0 \<le> (y t :: real)" and "a \<in> set ts"
  shows "y a \<le> (\<Sum>t \<leftarrow> ts. y t)"
  using assms
proof (induction ts)
  case Nil
  then show ?case by simp
next
  case (Cons b ts)
  have nonneg: "0 \<le> (\<Sum>t \<leftarrow> ts. y t)"
    using Cons.prems(1) by (intro sum_list_nonneg) auto
  show ?case
  proof (cases "a = b")
    case True
    with nonneg show ?thesis by simp
  next
    case False
    with Cons have "y a \<le> (\<Sum>t \<leftarrow> ts. y t)" by auto
    moreover have "0 \<le> y b" using Cons.prems(1) by simp
    ultimately show ?thesis by simp
  qed
qed

lemma two_members_le_sum_list:
  assumes "\<forall>t \<in> set ts. 0 \<le> (y t :: real)" and "a \<in> set ts" and "b \<in> set ts" and "a \<noteq> b"
  shows "y a + y b \<le> (\<Sum>t \<leftarrow> ts. y t)"
  using assms
proof (induction ts)
  case Nil
  then show ?case by simp
next
  case (Cons u ts)
  have nn: "\<forall>t \<in> set ts. 0 \<le> y t" using Cons.prems(1) by simp
  consider "u = a" | "u = b" | "u \<noteq> a" "u \<noteq> b" by blast
  then show ?case
  proof cases
    case 1
    with Cons.prems have "b \<in> set ts" by auto
    from member_le_sum_list_real [OF nn this] 1 show ?thesis by simp
  next
    case 2
    with Cons.prems have "a \<in> set ts" by auto
    from member_le_sum_list_real [OF nn this] 2 show ?thesis by simp
  next
    case 3
    with Cons.prems have "a \<in> set ts" "b \<in> set ts" by auto
    from Cons.IH [OF nn this Cons.prems(4)] Cons.prems(1) show ?thesis by simp
  qed
qed

lemma at_most_one_sum:
  assumes "distinct ts"
    and "\<forall>t \<in> set ts. y t = 0 \<or> y t = (1::real)"
    and "\<forall>t1 \<in> set ts. \<forall>t2 \<in> set ts. y t1 = 1 \<and> y t2 = 1 \<longrightarrow> t1 = t2"
  shows "(\<Sum>t \<leftarrow> ts. y t) \<le> 1"
  using assms
proof (induction ts)
  case Nil
  then show ?case by simp
next
  case (Cons a ts)
  show ?case
  proof (cases "y a = 1")
    case True
    have "\<forall>t \<in> set ts. y t = 0"
    proof
      fix t assume t: "t \<in> set ts"
      with Cons.prems(1) have "t \<noteq> a" by auto
      with Cons.prems(3) True t have "y t \<noteq> 1" by auto
      with Cons.prems(2) t show "y t = 0" by auto
    qed
    then have "(\<Sum>t \<leftarrow> ts. y t) = 0"
      using sum_list_all_zero [of ts y "\<lambda>_. 1"] by simp
    with True show ?thesis by simp
  next
    case False
    with Cons.prems(2) have "y a = 0" by auto
    moreover have "(\<Sum>t \<leftarrow> ts. y t) \<le> 1"
      using Cons.prems by (intro Cons.IH) auto
    ultimately show ?thesis by simp
  qed
qed


subsection \<open>Reading the matches back\<close>

lemma set_update_subset: "set (AList.update k v al) \<subseteq> insert (k, v) (set al)"
  by (induction al) auto

lemma fold_matches_set:
  "(t, c) \<in> set (fold (\<lambda>(t, c) matches.
       if val (t, c) = Some (1::real) then AList.update t c matches else matches) ps acc) \<Longrightarrow>
   (t, c) \<in> set acc \<or> ((t, c) \<in> set ps \<and> val (t, c) = Some 1)"
proof (induction ps arbitrary: acc)
  case Nil
  then show ?case by simp
next
  case (Cons p ps)
  obtain t' c' where p: "p = (t', c')" by (cases p)
  show ?case
  proof (cases "val (t', c') = Some 1")
    case True
    with Cons.prems p have "(t, c) \<in> set (fold (\<lambda>(t, c) matches.
       if val (t, c) = Some 1 then AList.update t c matches else matches) ps
         (AList.update t' c' acc))" by simp
    from Cons.IH [OF this] have "(t, c) \<in> set (AList.update t' c' acc) \<or>
       ((t, c) \<in> set ps \<and> val (t, c) = Some 1)" .
    with set_update_subset [of t' c' acc] True p show ?thesis by auto
  next
    case False
    with Cons.prems p have "(t, c) \<in> set (fold (\<lambda>(t, c) matches.
       if val (t, c) = Some 1 then AList.update t c matches else matches) ps acc)" by simp
    from Cons.IH [OF this] show ?thesis by auto
  qed
qed

lemma fold_matches_keys:
  "fst ` set (fold (\<lambda>(t, c) matches.
       if val (t, c) = Some (1::real) then AList.update t c matches else matches) ps acc) =
   fst ` set acc \<union> {t. \<exists>c. (t, c) \<in> set ps \<and> val (t, c) = Some 1}"
proof (induction ps arbitrary: acc)
  case Nil
  then show ?case by simp
next
  case (Cons p ps)
  obtain t' c' where p: "p = (t', c')" by (cases p)
  show ?case
    unfolding p by (cases "val (t', c') = Some 1") (auto simp: Cons.IH dom_update)
qed

lemma fold_matches_distinct:
  "distinct (map fst acc) \<Longrightarrow>
   distinct (map fst (fold (\<lambda>(t, c) matches.
       if val (t, c) = Some (1::real) then AList.update t c matches else matches) ps acc))"
proof (induction ps arbitrary: acc)
  case Nil
  then show ?case by simp
next
  case (Cons p ps)
  obtain t' c' where p: "p = (t', c')" by (cases p)
  show ?case
    unfolding p using Cons.prems
    by (cases "val (t', c') = Some 1") (auto intro!: Cons.IH simp: distinct_update)
qed

lemma extract_matches_member:
  "(t, c) \<in> set (extract_matches solution risk_sets) \<Longrightarrow>
   (t, c) \<in> set (risk_pairs risk_sets) \<and> varValue solution (t, c) = Some 1"
  unfolding extract_matches_def using fold_matches_set [of t c "varValue solution" _ "[]"]
  by simp

lemma extract_matches_keys:
  "fst ` set (extract_matches solution risk_sets) =
   {t. \<exists>c. (t, c) \<in> set (risk_pairs risk_sets) \<and> varValue solution (t, c) = Some 1}"
  unfolding extract_matches_def using fold_matches_keys [of "varValue solution" _ "[]"]
  by simp

lemma extract_matches_distinct:
  "distinct (map fst (extract_matches solution risk_sets))"
  unfolding extract_matches_def using fold_matches_distinct [of "[]" "varValue solution"]
  by simp


subsection \<open>What a feasible assignment says\<close>

lemma feasible_treated:
  assumes "matching_problem distance_matrix risk_sets = Inr prob" and "feasible prob x"
    and "(t, controls) \<in> set risk_sets"
  shows "(\<Sum>c \<leftarrow> controls. x (t, c)) = 1"
    and "\<forall>c \<in> set controls. x (t, c) = 0 \<or> x (t, c) = 1"
proof -
  have "(map (\<lambda>c. (t, c)) controls, LpConstraintEQ, 1) \<in> set (constraints prob)"
    using assms(3) by (force simp: matching_problem_Inr(3) [OF assms(1)] treated_constraints_def)
  with assms(2) have "satisfies x (map (\<lambda>c. (t, c)) controls, LpConstraintEQ, 1)"
    unfolding feasible_def by blast
  then show "(\<Sum>c \<leftarrow> controls. x (t, c)) = 1" by (simp add: o_def)
  have "(t, c) \<in> set (variables prob)" if "c \<in> set controls" for c
    using that assms(3) by (auto simp: matching_problem_Inr(1) [OF assms(1)] set_risk_pairs)
  with assms(2) show "\<forall>c \<in> set controls. x (t, c) = 0 \<or> x (t, c) = 1"
    unfolding feasible_def by blast
qed

lemma feasible_control:
  assumes "matching_problem distance_matrix risk_sets = Inr prob" and "feasible prob x"
    and "(t, controls) \<in> set risk_sets" and "c \<in> set controls"
  shows "(\<Sum>t \<leftarrow> map fst (filter (\<lambda>(t, controls). c \<in> set controls) risk_sets). x (t, c)) \<le> 1"
proof -
  have "c \<in> set (all_controls risk_sets)"
    using assms(3,4) by (force simp: all_controls_def)
  then have "(map (\<lambda>(t, controls). (t, c))
                (filter (\<lambda>(t, controls). c \<in> set controls) risk_sets), LpConstraintLE, 1)
             \<in> set (constraints prob)"
    by (simp add: matching_problem_Inr(3) [OF assms(1)] control_constraints_def)
  with assms(2) have "satisfies x (map (\<lambda>(t, controls). (t, c))
                (filter (\<lambda>(t, controls). c \<in> set controls) risk_sets), LpConstraintLE, 1)"
    unfolding feasible_def by blast
  then show ?thesis by (simp add: o_def split_def)
qed

lemma feasible_selects:
  assumes "distinct (map fst risk_sets)"
    and "matching_problem distance_matrix risk_sets = Inr prob" and "feasible prob x"
  shows "\<exists>ch. \<forall>(t, controls) \<in> set risk_sets.
           ch t \<in> set controls \<and> (\<forall>c \<in> set controls. x (t, c) = (if c = ch t then 1 else 0))"
proof -
  define ch where
    "ch t = (SOME c. \<exists>controls. (t, controls) \<in> set risk_sets \<and> c \<in> set controls \<and> x (t, c) = 1)"
    for t
  have "ch t \<in> set controls \<and> (\<forall>c \<in> set controls. x (t, c) = (if c = ch t then 1 else 0))"
    if tc: "(t, controls) \<in> set risk_sets" for t controls
  proof -
    from binary_sum_one [OF feasible_treated(2) [OF assms(2,3) tc] feasible_treated(1) [OF assms(2,3) tc]]
    obtain c0 where c0: "c0 \<in> set controls"
      "\<forall>c \<in> set controls. x (t, c) = (if c = c0 then 1 else 0)" by blast
    then have ex: "\<exists>controls. (t, controls) \<in> set risk_sets \<and> c0 \<in> set controls \<and> x (t, c0) = 1"
      using tc by auto
    have "\<exists>controls. (t, controls) \<in> set risk_sets \<and> ch t \<in> set controls \<and> x (t, ch t) = 1"
      unfolding ch_def by (rule someI_ex) (use ex in blast)
    then obtain controls' where c': "(t, controls') \<in> set risk_sets" "ch t \<in> set controls'"
      "x (t, ch t) = 1" by blast
    from assms(1) tc c'(1) have "controls' = controls" by (meson eq_key_imp_eq_value)
    with c' c0 have "ch t = c0" by (metis zero_neq_one)
    with c0 show ?thesis by simp
  qed
  then show ?thesis by blast
qed

lemma selected_matches:
  assumes "matching_problem distance_matrix risk_sets = Inr prob"
    and "carries solution prob x"
    and "\<forall>(t, controls) \<in> set risk_sets.
           ch t \<in> set controls \<and> (\<forall>c \<in> set controls. x (t, c) = (if c = ch t then 1 else 0))"
  shows "set (extract_matches solution risk_sets) = (\<lambda>t. (t, ch t)) ` fst ` set risk_sets"
proof -
  have val: "varValue solution v = Some (x v)" if "v \<in> set (risk_pairs risk_sets)" for v
    using assms(2) that by (simp add: carries_def matching_problem_Inr(1) [OF assms(1)])
  have sub: "c = ch t \<and> t \<in> fst ` set risk_sets"
    if "(t, c) \<in> set (extract_matches solution risk_sets)" for t c
  proof -
    from extract_matches_member [OF that]
    have pr: "(t, c) \<in> set (risk_pairs risk_sets)" and "varValue solution (t, c) = Some 1"
      by simp_all
    with val have one: "x (t, c) = 1" by simp
    from pr obtain controls where tc: "(t, controls) \<in> set risk_sets" "c \<in> set controls"
      by (auto simp: set_risk_pairs)
    with assms(3) have "x (t, c) = (if c = ch t then 1 else 0)" by auto
    with one have "c = ch t" by (simp split: if_splits)
    with tc show ?thesis by force
  qed
  have sup: "(t, ch t) \<in> set (extract_matches solution risk_sets)"
    if "t \<in> fst ` set risk_sets" for t
  proof -
    from that obtain controls where tc: "(t, controls) \<in> set risk_sets" by auto
    with assms(3) have "ch t \<in> set controls" "x (t, ch t) = 1" by auto
    with tc have pr: "(t, ch t) \<in> set (risk_pairs risk_sets)"
      by (auto simp: set_risk_pairs)
    from val [OF pr] \<open>x (t, ch t) = 1\<close> have "varValue solution (t, ch t) = Some 1" by simp
    with pr have "(t, ch t) \<in> set (risk_pairs risk_sets)" "varValue solution (t, ch t) = Some 1"
      by simp_all
    then have "t \<in> fst ` set (extract_matches solution risk_sets)"
      unfolding extract_matches_keys by blast
    then obtain c where "(t, c) \<in> set (extract_matches solution risk_sets)" by auto
    with sub show ?thesis by auto
  qed
  show ?thesis using sub sup by auto
qed

lemma total_distance_selected:
  assumes "distinct (map fst matches)" and "distinct ks"
    and "set matches = (\<lambda>t. (t, ch t)) ` set ks"
  shows "total_distance distance_matrix matches =
         (\<Sum>t \<leftarrow> ks. distance_of distance_matrix (t, ch t))"
proof -
  from assms(1) have d: "distinct matches" by (simp add: distinct_map)
  have inj: "inj_on (\<lambda>t. (t, ch t)) (set ks)" by (rule inj_onI) simp
  have "total_distance distance_matrix matches = sum (distance_of distance_matrix) (set matches)"
    unfolding total_distance_def using d by (rule sum_list_distinct_conv_sum_set)
  also have "\<dots> = sum (\<lambda>t. distance_of distance_matrix (t, ch t)) (set ks)"
    unfolding assms(3) using inj by (simp add: sum.reindex)
  also have "\<dots> = (\<Sum>t \<leftarrow> ks. distance_of distance_matrix (t, ch t))"
    using assms(2) by (simp add: sum_list_distinct_conv_sum_set)
  finally show ?thesis .
qed

lemma objective_selected:
  assumes "matching_problem distance_matrix risk_sets = Inr prob"
    and "\<forall>(t, controls) \<in> set risk_sets. distinct controls"
    and "\<forall>(t, controls) \<in> set risk_sets.
           ch t \<in> set controls \<and> (\<forall>c \<in> set controls. x (t, c) = (if c = ch t then 1 else 0))"
  shows "objective_value prob x =
         (\<Sum>t \<leftarrow> map fst risk_sets. distance_of distance_matrix (t, ch t))"
proof -
  have "objective_value prob x =
        (\<Sum>(t, controls) \<leftarrow> risk_sets. \<Sum>c \<leftarrow> controls. x (t, c) * distance_of distance_matrix (t, c))"
    by (simp add: objective_value_pairs [OF assms(1)] sum_list_risk_pairs)
  also have "\<dots> = (\<Sum>(t, controls) \<leftarrow> risk_sets. distance_of distance_matrix (t, ch t))"
  proof (rule arg_cong [where f = sum_list], rule map_cong [OF refl])
    fix p assume p: "p \<in> set risk_sets"
    obtain t controls where tc: "p = (t, controls)" by (cases p)
    have d1: "distinct controls" using bspec [OF assms(2) p] tc by simp
    have s1: "ch t \<in> set controls \<and>
      (\<forall>c \<in> set controls. x (t, c) = (if c = ch t then 1 else 0))"
      using bspec [OF assms(3) p] tc by simp
    from sum_list_pick [OF d1 conjunct1 [OF s1] conjunct2 [OF s1],
        of "\<lambda>c. distance_of distance_matrix (t, c)"]
    show "(case p of (t, controls) \<Rightarrow> \<Sum>c \<leftarrow> controls. x (t, c) * distance_of distance_matrix (t, c))
        = (case p of (t, controls) \<Rightarrow> distance_of distance_matrix (t, ch t))"
      by (simp add: tc)
  qed
  also have "\<dots> = (\<Sum>t \<leftarrow> map fst risk_sets. distance_of distance_matrix (t, ch t))"
    by (simp add: o_def split_def)
  finally show ?thesis .
qed


subsection \<open>A one-to-one assignment as an assignment of the program\<close>

lemma matching_selects:
  assumes "distinct (map fst risk_sets)" and "feasible_assignment risk_sets m"
  shows "\<forall>(t, controls) \<in> set risk_sets.
           the (map_of m t) \<in> set controls \<and>
           (\<forall>c \<in> set controls.
              (if (t, c) \<in> set m then 1 else 0) = (if c = the (map_of m t) then 1 else (0::real)))"
proof -
  from assms(2) have dm: "distinct (map fst m)"
    and keys: "fst ` set m = fst ` set risk_sets"
    and resp: "\<forall>(t, c) \<in> set m. \<exists>controls. (t, controls) \<in> set risk_sets \<and> c \<in> set controls"
    by (simp_all add: feasible_assignment_def)
  have "the (map_of m t) \<in> set controls \<and>
        (\<forall>c \<in> set controls.
           (if (t, c) \<in> set m then 1 else 0) = (if c = the (map_of m t) then 1 else (0::real)))"
    if tc: "(t, controls) \<in> set risk_sets" for t controls
  proof -
    from tc keys have "t \<in> fst ` set m" by force
    then obtain c' where c': "(t, c') \<in> set m" by auto
    with dm have look: "map_of m t = Some c'" by simp
    from resp c' obtain controls' where "(t, controls') \<in> set risk_sets" "c' \<in> set controls'"
      by blast
    with assms(1) tc have in_set: "c' \<in> set controls" by (metis eq_key_imp_eq_value)
    have "(t, c) \<in> set m \<longleftrightarrow> c = c'" for c
      using dm c' by (metis eq_key_imp_eq_value)
    with look in_set show ?thesis by simp
  qed
  then show ?thesis by blast
qed

lemma matching_set:
  assumes "feasible_assignment risk_sets m"
  shows "set m = (\<lambda>t. (t, the (map_of m t))) ` fst ` set risk_sets"
proof -
  from assms have dm: "distinct (map fst m)"
    and keys: "fst ` set m = fst ` set risk_sets"
    by (simp_all add: feasible_assignment_def)
  have "set m = (\<lambda>t. (t, the (map_of m t))) ` fst ` set m"
  proof (intro set_eqI iffI)
    fix p assume p: "p \<in> set m"
    obtain t c where tc: "p = (t, c)" by (cases p)
    with p dm have "map_of m t = Some c" by simp
    with p tc show "p \<in> (\<lambda>t. (t, the (map_of m t))) ` fst ` set m" by force
  next
    fix p assume "p \<in> (\<lambda>t. (t, the (map_of m t))) ` fst ` set m"
    then obtain t c where tc: "(t, c) \<in> set m" "p = (t, the (map_of m t))" by auto
    with dm have "map_of m t = Some c" by simp
    with tc show "p \<in> set m" by simp
  qed
  with keys show ?thesis by simp
qed

lemma matching_feasible:
  assumes "distinct (map fst risk_sets)"
    and "\<forall>(t, controls) \<in> set risk_sets. distinct controls"
    and "matching_problem distance_matrix risk_sets = Inr prob"
    and "feasible_assignment risk_sets m"
  shows "feasible prob (\<lambda>v. if v \<in> set m then 1 else 0)"
proof -
  let ?x = "\<lambda>v. if v \<in> set m then 1 else (0::real)"
  note sel = matching_selects [OF assms(1,4)]
  from assms(4) have dm: "distinct (map fst m)" and ds: "distinct (map snd m)"
    by (simp_all add: feasible_assignment_def)
  have treated: "satisfies ?x k" if "k \<in> set (treated_constraints risk_sets)" for k
  proof -
    from that obtain t controls where tc: "(t, controls) \<in> set risk_sets"
      and k: "k = (map (\<lambda>c. (t, c)) controls, LpConstraintEQ, 1)"
      by (auto simp: treated_constraints_def)
    have d1: "distinct controls" using bspec [OF assms(2) tc] by simp
    have s1: "the (map_of m t) \<in> set controls \<and>
      (\<forall>c \<in> set controls. ?x (t, c) = (if c = the (map_of m t) then 1 else 0))"
      using bspec [OF sel tc] by simp
    from sum_list_pick [OF d1 conjunct1 [OF s1] conjunct2 [OF s1], of "\<lambda>c. 1"]
    show ?thesis by (simp add: k o_def)
  qed
  have control: "satisfies ?x k" if "k \<in> set (control_constraints risk_sets)" for k
  proof -
    from that obtain c where
      k: "k = (map (\<lambda>(t, controls). (t, c))
                 (filter (\<lambda>(t, controls). c \<in> set controls) risk_sets), LpConstraintLE, 1)"
      by (auto simp: control_constraints_def)
    let ?ts = "map fst (filter (\<lambda>(t, controls). c \<in> set controls) risk_sets)"
    have "distinct ?ts" using assms(1) by (rule distinct_map_filter)
    moreover have "\<forall>t \<in> set ?ts. ?x (t, c) = 0 \<or> ?x (t, c) = 1" by simp
    moreover have "\<forall>t1 \<in> set ?ts. \<forall>t2 \<in> set ?ts. ?x (t1, c) = 1 \<and> ?x (t2, c) = 1 \<longrightarrow> t1 = t2"
    proof (intro ballI impI)
      fix t1 t2 assume "?x (t1, c) = 1 \<and> ?x (t2, c) = 1"
      then have "(t1, c) \<in> set m" "(t2, c) \<in> set m" by (simp_all split: if_splits)
      with ds show "t1 = t2"
        by (metis (no_types, lifting) distinct_map inj_onD prod.inject snd_conv)
    qed
    ultimately have "(\<Sum>t \<leftarrow> ?ts. ?x (t, c)) \<le> 1" by (rule at_most_one_sum)
    then show ?thesis by (simp add: k o_def split_def)
  qed
  show ?thesis
    unfolding feasible_def matching_problem_Inr(3) [OF assms(3)]
    using treated control by auto
qed


subsection \<open>The matching read from a feasible assignment\<close>

lemma optimal_balanced_matching_Inr:
  "matching_problem distance_matrix risk_sets = Inr prob \<Longrightarrow>
   optimal_balanced_matching solve distance_matrix risk_sets penalty_factor =
     Inr (extract_matches (solve prob) risk_sets)"
  by (simp add: optimal_balanced_matching_def)

lemma extract_matches_respects:
  "\<forall>(t, c) \<in> set (extract_matches solution risk_sets).
     \<exists>controls. (t, controls) \<in> set risk_sets \<and> c \<in> set controls"
  using extract_matches_member [of _ _ solution risk_sets] by (auto simp: set_risk_pairs)

lemma extracted_feasible_assignment:
  assumes "distinct (map fst risk_sets)"
    and "matching_problem distance_matrix risk_sets = Inr prob"
    and "feasible prob x" and "carries solution prob x"
  shows "feasible_assignment risk_sets (extract_matches solution risk_sets)"
proof -
  let ?m = "extract_matches solution risk_sets"
  obtain ch where ch: "\<forall>(t, controls) \<in> set risk_sets.
      ch t \<in> set controls \<and> (\<forall>c \<in> set controls. x (t, c) = (if c = ch t then 1 else 0))"
    using feasible_selects [OF assms(1,2,3)] by blast
  have set_m: "set ?m = (\<lambda>t. (t, ch t)) ` fst ` set risk_sets"
    by (rule selected_matches [OF assms(2,4) ch])
  have keys: "fst ` set ?m = fst ` set risk_sets"
    unfolding set_m by force
  have dk: "distinct (map fst ?m)" by (rule extract_matches_distinct)
  have "t1 = t2" if m1: "(t1, c) \<in> set ?m" and m2: "(t2, c) \<in> set ?m" for t1 t2 c
  proof (rule ccontr)
    assume ne: "t1 \<noteq> t2"
    from m1 m2 set_m have c: "c = ch t1" "c = ch t2" by auto
    from m1 m2 set_m obtain cs1 cs2 where
      r1: "(t1, cs1) \<in> set risk_sets" and r2: "(t2, cs2) \<in> set risk_sets" by auto
    from bspec [OF ch r1] c have c1: "c \<in> set cs1" "x (t1, c) = 1" by auto
    from bspec [OF ch r2] c have c2: "c \<in> set cs2" "x (t2, c) = 1" by auto
    let ?ts = "map fst (filter (\<lambda>(t, controls). c \<in> set controls) risk_sets)"
    have in1: "t1 \<in> set ?ts" using r1 c1 by force
    have in2: "t2 \<in> set ?ts" using r2 c2 by force
    have nn: "\<forall>t \<in> set ?ts. 0 \<le> x (t, c)"
    proof
      fix t assume "t \<in> set ?ts"
      then obtain cs where "(t, cs) \<in> set risk_sets" "c \<in> set cs" by auto
      with feasible_treated(2) [OF assms(2,3)] have "x (t, c) = 0 \<or> x (t, c) = 1" by blast
      then show "0 \<le> x (t, c)" by auto
    qed
    from two_members_le_sum_list [OF nn in1 in2 ne] feasible_control [OF assms(2,3) r1 c1(1)]
    have "x (t1, c) + x (t2, c) \<le> 1" by simp
    with c1 c2 show False by simp
  qed
  then have "inj_on snd (set ?m)"
    by (intro inj_onI) (metis prod.collapse)
  moreover from dk have "distinct ?m" by (simp add: distinct_map)
  ultimately have ds: "distinct (map snd ?m)" by (simp add: distinct_map)
  show ?thesis
    unfolding feasible_assignment_def
    using dk ds keys extract_matches_respects by blast
qed

subsection \<open>A small program\<close>

text \<open>
  Two treated subjects, 3 and 7, share the controls 4 and 5. The cheapest one-to-one
  assignment pairs 3 with 4 and 7 with 5, at total distance 2; the other one costs 5.
\<close>

lemma toy_problem:
  "matching_problem
     (\<lambda>v. if v = (3, 4) then Some 1 else if v = (3, 5) then Some 3
          else if v = (7, 4) then Some 2 else if v = (7, 5) then Some 1 else None)
     [(3, [4, 5]), (7, [4, 5])] =
   Inr \<lparr>variables = [(3, 4), (3, 5), (7, 4), (7, 5)],
        objective = [((3, 4), 1), ((3, 5), 3), ((7, 4), 2), ((7, 5), 1)],
        constraints = [([(3, 4), (3, 5)], LpConstraintEQ, 1), ([(7, 4), (7, 5)], LpConstraintEQ, 1),
                       ([(3, 4), (7, 4)], LpConstraintLE, 1), ([(3, 5), (7, 5)], LpConstraintLE, 1)]\<rparr>"
  by (simp add: matching_problem_def risk_pairs_def treated_constraints_def
      control_constraints_def all_controls_def)

lemma toy_optimal:
  "optimal
     \<lparr>variables = [(3, 4), (3, 5), (7, 4), (7, 5)],
      objective = [((3, 4), 1), ((3, 5), 3), ((7, 4), 2), ((7, 5), 1)],
      constraints = [([(3, 4), (3, 5)], LpConstraintEQ, 1), ([(7, 4), (7, 5)], LpConstraintEQ, 1),
                     ([(3, 4), (7, 4)], LpConstraintLE, 1), ([(3, 5), (7, 5)], LpConstraintLE, 1)]\<rparr>
     (\<lambda>v. if v = (3, 4) \<or> v = (7, 5) then 1 else 0)"
  unfolding optimal_def feasible_def objective_value_def
  by auto

lemma toy_feasible:
  "feasible
     \<lparr>variables = [(3, 4), (3, 5), (7, 4), (7, 5)],
      objective = [((3, 4), 1), ((3, 5), 3), ((7, 4), 2), ((7, 5), 1)],
      constraints = [([(3, 4), (3, 5)], LpConstraintEQ, 1), ([(7, 4), (7, 5)], LpConstraintEQ, 1),
                     ([(3, 4), (7, 4)], LpConstraintLE, 1), ([(3, 5), (7, 5)], LpConstraintLE, 1)]\<rparr>
     (\<lambda>v. if v = (3, 5) \<or> v = (7, 4) then 1 else 0)"
  unfolding feasible_def by simp

subsection \<open>Optimality, validity, empty risk sets and the solver status\<close>

text \<open>
  Claim C1. Let the risk sets be a dict whose values are sets (no control twice in a risk
  set), let the program be built (every distance is found), and let the solver return an
  optimal solution of that program. Then for every feasible one-to-one assignment that
  respects the risk sets, \<^verbatim>\<open>optimal_balanced_matching\<close> returns a matching that is
  itself such an assignment and whose total dissimilarity is less than or equal to the
  total dissimilarity of the other one.
\<close>

theorem matching_total_distance_minimal:
  assumes "distinct (map fst risk_sets)"
    and "\<forall>(t, controls) \<in> set risk_sets. distinct controls"
    and "matching_problem distance_matrix risk_sets = Inr prob"
    and "optimal prob x" and "carries (solve prob) prob x"
    and "feasible_assignment risk_sets other"
  shows "\<exists>matches.
           optimal_balanced_matching solve distance_matrix risk_sets penalty_factor = Inr matches \<and>
           feasible_assignment risk_sets matches \<and>
           total_distance distance_matrix matches \<le> total_distance distance_matrix other"
proof -
  let ?m = "extract_matches (solve prob) risk_sets"
  let ?ks = "map fst risk_sets"
  let ?D = "distance_of distance_matrix"
  from assms(4) have feas: "feasible prob x"
    and best: "\<And>y. feasible prob y \<Longrightarrow> objective_value prob x \<le> objective_value prob y"
    by (simp_all add: optimal_def)
  obtain ch where ch: "\<forall>(t, controls) \<in> set risk_sets.
      ch t \<in> set controls \<and> (\<forall>c \<in> set controls. x (t, c) = (if c = ch t then 1 else 0))"
    using feasible_selects [OF assms(1,3) feas] by blast
  have "set ?m = (\<lambda>t. (t, ch t)) ` set ?ks"
    using selected_matches [OF assms(3,5) ch] by simp
  then have "total_distance distance_matrix ?m = (\<Sum>t \<leftarrow> ?ks. ?D (t, ch t))"
    by (intro total_distance_selected extract_matches_distinct assms(1))
  also have "\<dots> = objective_value prob x"
    by (rule objective_selected [OF assms(3,2) ch, symmetric])
  finally have mine: "total_distance distance_matrix ?m = objective_value prob x" .
  let ?y = "\<lambda>v. if v \<in> set other then 1 else (0::real)"
  let ?ch' = "\<lambda>t. the (map_of other t)"
  have sel': "\<forall>(t, controls) \<in> set risk_sets.
      ?ch' t \<in> set controls \<and> (\<forall>c \<in> set controls. ?y (t, c) = (if c = ?ch' t then 1 else 0))"
    by (rule matching_selects [OF assms(1,6)])
  have "set other = (\<lambda>t. (t, ?ch' t)) ` set ?ks"
    using matching_set [OF assms(6)] by simp
  moreover from assms(6) have "distinct (map fst other)" by (simp add: feasible_assignment_def)
  ultimately have "total_distance distance_matrix other = (\<Sum>t \<leftarrow> ?ks. ?D (t, ?ch' t))"
    by (intro total_distance_selected assms(1))
  also have "\<dots> = objective_value prob ?y"
    by (rule objective_selected [OF assms(3,2) sel', symmetric])
  finally have theirs: "total_distance distance_matrix other = objective_value prob ?y" .
  have "feasible prob ?y" by (rule matching_feasible [OF assms(1,2,3,6)])
  from best [OF this] mine theirs
  have "total_distance distance_matrix ?m \<le> total_distance distance_matrix other" by simp
  moreover have "feasible_assignment risk_sets ?m"
    by (rule extracted_feasible_assignment [OF assms(1,3) feas assms(5)])
  ultimately show ?thesis
    using optimal_balanced_matching_Inr [OF assms(3)] by simp
qed

theorem matching_total_distance_minimal_witness:
  "distinct (map fst [(3::label, [4, 5::label]), (7, [4, 5])]) \<and>
   distinct [4, 5::label] \<and>
   feasible_assignment [(3, [4, 5]), (7, [4, 5])] [(3, 5), (7, 4)] \<and>
   (\<exists>matches.
      optimal_balanced_matching
        (\<lambda>prob. \<lparr>status = LpStatusOptimal,
                  varValue = (\<lambda>v. Some (if v = (3, 4) \<or> v = (7, 5) then 1 else 0))\<rparr>)
        (\<lambda>v. if v = (3, 4) then Some 1 else if v = (3, 5) then Some 3
             else if v = (7, 4) then Some 2 else if v = (7, 5) then Some 1 else None)
        [(3, [4, 5]), (7, [4, 5])] 100000 = Inr matches \<and>
      feasible_assignment [(3, [4, 5]), (7, [4, 5])] matches \<and>
      total_distance
        (\<lambda>v. if v = (3, 4) then Some 1 else if v = (3, 5) then Some 3
             else if v = (7, 4) then Some 2 else if v = (7, 5) then Some 1 else None) matches
      \<le> total_distance
        (\<lambda>v. if v = (3, 4) then Some 1 else if v = (3, 5) then Some 3
             else if v = (7, 4) then Some 2 else if v = (7, 5) then Some 1 else None)
        [(3, 5), (7, 4)])"
proof -
  let ?rs = "[(3::label, [4, 5::label]), (7, [4, 5])]"
  let ?dm = "\<lambda>v::lp_var. if v = (3, 4) then Some (1::real) else if v = (3, 5) then Some 3
             else if v = (7, 4) then Some 2 else if v = (7, 5) then Some 1 else None"
  let ?prob = "\<lparr>variables = [(3, 4), (3, 5), (7, 4), (7, 5)],
      objective = [((3, 4), 1), ((3, 5), 3), ((7, 4), 2), ((7, 5), 1)],
      constraints = [([(3, 4), (3, 5)], LpConstraintEQ, 1), ([(7, 4), (7, 5)], LpConstraintEQ, 1),
                     ([(3, 4), (7, 4)], LpConstraintLE, 1), ([(3, 5), (7, 5)], LpConstraintLE, 1)]\<rparr>"
  let ?x = "\<lambda>v::lp_var. if v = (3, 4) \<or> v = (7, 5) then 1 else (0::real)"
  let ?solve = "\<lambda>prob::lp_problem. \<lparr>status = LpStatusOptimal, varValue = (\<lambda>v. Some (?x v))\<rparr>"
  have h1: "distinct (map fst ?rs)" by simp
  have h2: "\<forall>(t, controls) \<in> set ?rs. distinct controls" by simp
  have h3: "matching_problem ?dm ?rs = Inr ?prob" by (rule toy_problem)
  have h4: "optimal ?prob ?x" by (rule toy_optimal)
  have h5: "carries (?solve ?prob) ?prob ?x" by (simp add: carries_def)
  have h6: "feasible_assignment ?rs [(3, 5), (7, 4)]" by (simp add: feasible_assignment_def)
  note inst = matching_total_distance_minimal
    [where risk_sets = ?rs and distance_matrix = ?dm and prob = ?prob and x = ?x
       and solve = ?solve and other = "[(3, 5), (7, 4)]" and penalty_factor = 100000]
  from inst [OF h1 h2 h3 h4 h5 h6] h1 h6 show ?thesis by simp
qed

text \<open>
  Claim C4, as amended. In every matching that \<^verbatim>\<open>optimal_balanced_matching\<close> returns,
  every treated id is a key at most once and every matched control belongs to the risk
  set of the treated subject it is paired with. Whenever the values the solver returns
  are a feasible assignment of the program, no control id is the value of more than one
  treated id and every treated id of the risk sets is a key.
\<close>

theorem extracted_matching_valid:
  assumes "distinct (map fst risk_sets)"
    and "matching_problem distance_matrix risk_sets = Inr prob"
  shows "\<exists>matches.
           optimal_balanced_matching solve distance_matrix risk_sets penalty_factor = Inr matches \<and>
           distinct (map fst matches) \<and>
           (\<forall>(t, c) \<in> set matches. \<exists>controls. (t, controls) \<in> set risk_sets \<and> c \<in> set controls) \<and>
           ((\<exists>x. feasible prob x \<and> carries (solve prob) prob x) \<longrightarrow>
              distinct (map snd matches) \<and> fst ` set matches = fst ` set risk_sets)"
proof -
  let ?m = "extract_matches (solve prob) risk_sets"
  have "distinct (map snd ?m) \<and> fst ` set ?m = fst ` set risk_sets"
    if "feasible prob x" "carries (solve prob) prob x" for x
    using extracted_feasible_assignment [OF assms that] by (simp add: feasible_assignment_def)
  then show ?thesis
    using optimal_balanced_matching_Inr [OF assms(2)] extract_matches_distinct
      extract_matches_respects by blast
qed

theorem extracted_matching_valid_witness:
  "distinct (map fst [(3::label, [4, 5::label]), (7, [4, 5])]) \<and>
   (\<exists>matches.
      optimal_balanced_matching
        (\<lambda>prob. \<lparr>status = LpStatusNotSolved,
                  varValue = (\<lambda>v. Some (if v = (3, 5) \<or> v = (7, 4) then 1 else 0))\<rparr>)
        (\<lambda>v. if v = (3, 4) then Some 1 else if v = (3, 5) then Some 3
             else if v = (7, 4) then Some 2 else if v = (7, 5) then Some 1 else None)
        [(3, [4, 5]), (7, [4, 5])] 100000 = Inr matches \<and>
      distinct (map fst matches) \<and>
      (\<forall>(t, c) \<in> set matches.
         \<exists>controls. (t, controls) \<in> set [(3, [4, 5]), (7, [4, 5])] \<and> c \<in> set controls) \<and>
      distinct (map snd matches) \<and>
      fst ` set matches = fst ` set [(3::label, [4, 5::label]), (7, [4, 5])])"
proof -
  let ?rs = "[(3::label, [4, 5::label]), (7, [4, 5])]"
  let ?dm = "\<lambda>v::lp_var. if v = (3, 4) then Some (1::real) else if v = (3, 5) then Some 3
             else if v = (7, 4) then Some 2 else if v = (7, 5) then Some 1 else None"
  let ?prob = "\<lparr>variables = [(3, 4), (3, 5), (7, 4), (7, 5)],
      objective = [((3, 4), 1), ((3, 5), 3), ((7, 4), 2), ((7, 5), 1)],
      constraints = [([(3, 4), (3, 5)], LpConstraintEQ, 1), ([(7, 4), (7, 5)], LpConstraintEQ, 1),
                     ([(3, 4), (7, 4)], LpConstraintLE, 1), ([(3, 5), (7, 5)], LpConstraintLE, 1)]\<rparr>"
  let ?x = "\<lambda>v::lp_var. if v = (3, 5) \<or> v = (7, 4) then 1 else (0::real)"
  let ?solve = "\<lambda>prob::lp_problem. \<lparr>status = LpStatusNotSolved, varValue = (\<lambda>v. Some (?x v))\<rparr>"
  have h1: "distinct (map fst ?rs)" by simp
  have h2: "matching_problem ?dm ?rs = Inr ?prob" by (rule toy_problem)
  have h3: "\<exists>x. feasible ?prob x \<and> carries (?solve ?prob) ?prob x"
    by (rule exI [of _ ?x]) (simp add: toy_feasible carries_def)
  note inst = extracted_matching_valid
    [where risk_sets = ?rs and distance_matrix = ?dm and prob = ?prob
       and solve = ?solve and penalty_factor = 100000]
  from inst [OF h1 h2] h3 h1 show ?thesis by blast
qed

text \<open>
  Claim C4 as stated fails when the program is infeasible, since the matching is returned
  whatever the solver reports. With two treated subjects whose only eligible control is
  the same one, a solver that leaves both variables at 1 yields a matching that uses the
  control twice; and no values of the variables at all yield a matching that is
  one-to-one and has both treated subjects as keys.
\<close>

theorem matching_one_to_one_counterexample:
  "optimal_balanced_matching
     (\<lambda>prob. \<lparr>status = LpStatusInfeasible, varValue = (\<lambda>v. Some 1)\<rparr>)
     (\<lambda>v. Some 1) [(1, [2]), (3, [2])] 100000 = Inr [(1, 2), (3, 2)] \<and>
   \<not> distinct (map snd [(1::label, 2::label), (3, 2)]) \<and>
   \<not> (\<exists>solve matches.
         optimal_balanced_matching solve (\<lambda>v. Some 1) [(1, [2]), (3, [2])] 100000 = Inr matches \<and>
         distinct (map snd matches) \<and> fst ` set matches = {1, 3})"
proof -
  have build: "matching_problem (\<lambda>v. Some 1) [(1, [2]), (3, [2])] =
    Inr \<lparr>variables = [(1, 2), (3, 2)], objective = [((1, 2), 1), ((3, 2), 1)],
         constraints = [([(1, 2)], LpConstraintEQ, 1), ([(3, 2)], LpConstraintEQ, 1),
                        ([(1, 2), (3, 2)], LpConstraintLE, 1)]\<rparr>"
    by (simp add: matching_problem_def risk_pairs_def treated_constraints_def
        control_constraints_def all_controls_def)
  have run: "optimal_balanced_matching
     (\<lambda>prob. \<lparr>status = LpStatusInfeasible, varValue = (\<lambda>v. Some 1)\<rparr>)
     (\<lambda>v. Some 1) [(1, [2]), (3, [2])] 100000 = Inr [(1, 2), (3, 2)]"
    by (simp add: optimal_balanced_matching_def build extract_matches_def risk_pairs_def)
  have none: False
    if r: "optimal_balanced_matching solve (\<lambda>v. Some 1) [(1, [2]), (3, [2])] 100000 = Inr matches"
      and d: "distinct (map snd matches)" and k: "fst ` set matches = {1, 3}"
    for solve matches
  proof -
    from r obtain solution where m: "matches = extract_matches solution [(1, [2]), (3, [2])]"
      by (auto simp: optimal_balanced_matching_def build)
    have two: "c = 2" if "(t, c) \<in> set matches" for t c
      using extract_matches_member [of t c solution "[(1, [2]), (3, [2])]"] that
      by (auto simp: m risk_pairs_def)
    from k have "1 \<in> fst ` set matches" and "3 \<in> fst ` set matches" by simp_all
    then obtain c1 c3 where "(1, c1) \<in> set matches" "(3, c3) \<in> set matches"
      by (metis imageE prod.collapse)
    with two have in1: "(1, 2) \<in> set matches" and in3: "(3, 2) \<in> set matches" by auto
    from d have "inj_on snd (set matches)" by (simp add: distinct_map)
    from inj_onD [OF this _ in1 in3] show False by simp
  qed
  show ?thesis using run none by auto
qed

text \<open>
  Claim C2, as amended. When some treated subject has an empty risk set,
  \<^verbatim>\<open>optimal_balanced_matching\<close> still adds that subject's exactly-one constraint,
  which reads \<open>0 = 1\<close>, so the program it hands to the solver has no feasible
  assignment. It raises nothing for it and returns the matching read from the
  variables, in which that subject is not a key.
\<close>

theorem empty_risk_set_program_infeasible:
  assumes "distinct (map fst risk_sets)" and "(t, []) \<in> set risk_sets"
    and "matching_problem distance_matrix risk_sets = Inr prob"
  shows "([], LpConstraintEQ, 1) \<in> set (constraints prob) \<and> (\<forall>x. \<not> feasible prob x) \<and>
         (\<exists>matches.
            optimal_balanced_matching solve distance_matrix risk_sets penalty_factor = Inr matches \<and>
            t \<notin> fst ` set matches)"
proof -
  have k: "([], LpConstraintEQ, 1) \<in> set (constraints prob)"
    using assms(2) by (force simp: matching_problem_Inr(3) [OF assms(3)] treated_constraints_def)
  have "\<not> feasible prob x" for x
  proof
    assume "feasible prob x"
    with k have "satisfies x ([], LpConstraintEQ, 1)" unfolding feasible_def by blast
    then show False by simp
  qed
  moreover have "t \<notin> fst ` set (extract_matches (solve prob) risk_sets)"
  proof
    assume "t \<in> fst ` set (extract_matches (solve prob) risk_sets)"
    then obtain c where "(t, c) \<in> set (risk_pairs risk_sets)"
      unfolding extract_matches_keys by blast
    then obtain controls where "(t, controls) \<in> set risk_sets" "c \<in> set controls"
      by (auto simp: set_risk_pairs)
    with assms(1,2) show False by (metis eq_key_imp_eq_value empty_iff list.set(1))
  qed
  ultimately show ?thesis
    using k optimal_balanced_matching_Inr [OF assms(3)] by simp
qed

theorem empty_risk_set_program_infeasible_witness:
  "distinct (map fst [(3::label, [4::label]), (7, [])]) \<and>
   (7, []) \<in> set [(3::label, [4::label]), (7, [])] \<and>
   matching_problem (\<lambda>v. Some 1) [(3, [4]), (7, [])] =
     Inr \<lparr>variables = [(3, 4)], objective = [((3, 4), 1)],
          constraints = [([(3, 4)], LpConstraintEQ, 1), ([], LpConstraintEQ, 1),
                         ([(3, 4)], LpConstraintLE, 1)]\<rparr> \<and>
   ([], LpConstraintEQ, 1) \<in> set (constraints
       \<lparr>variables = [(3, 4)], objective = [((3, 4), 1)],
        constraints = [([(3, 4)], LpConstraintEQ, 1), ([], LpConstraintEQ, 1),
                       ([(3, 4)], LpConstraintLE, 1)]\<rparr>) \<and>
   (\<forall>x. \<not> feasible
       \<lparr>variables = [(3, 4)], objective = [((3, 4), 1)],
        constraints = [([(3, 4)], LpConstraintEQ, 1), ([], LpConstraintEQ, 1),
                       ([(3, 4)], LpConstraintLE, 1)]\<rparr> x) \<and>
   (\<exists>matches.
      optimal_balanced_matching
        (\<lambda>prob. \<lparr>status = LpStatusInfeasible, varValue = (\<lambda>v. Some 1)\<rparr>)
        (\<lambda>v. Some 1) [(3, [4]), (7, [])] 100000 = Inr matches \<and>
      7 \<notin> fst ` set matches)"
proof -
  let ?rs = "[(3::label, [4::label]), (7, [])]"
  let ?prob = "\<lparr>variables = [(3, 4)], objective = [((3, 4), 1)],
          constraints = [([(3, 4)], LpConstraintEQ, 1), ([], LpConstraintEQ, 1),
                         ([(3, 4)], LpConstraintLE, 1)]\<rparr>"
  have h1: "distinct (map fst ?rs)" by simp
  have h2: "(7, []) \<in> set ?rs" by simp
  have h3: "matching_problem (\<lambda>v. Some 1) ?rs = Inr ?prob"
    by (simp add: matching_problem_def risk_pairs_def treated_constraints_def
        control_constraints_def all_controls_def)
  note inst = empty_risk_set_program_infeasible
    [where risk_sets = ?rs and distance_matrix = "\<lambda>v. Some 1" and prob = ?prob and t = 7
       and solve = "\<lambda>prob. \<lparr>status = LpStatusInfeasible, varValue = (\<lambda>v. Some 1)\<rparr>"
       and penalty_factor = 100000]
  from inst [OF h1 h2 h3] h1 h2 h3 show ?thesis by blast
qed

text \<open>
  Claim C2 as stated fails: for the risk sets \<open>{3: [4], 7: []}\<close> the program contains
  the constraint \<open>0 = 1\<close> of subject 7 and is infeasible.
\<close>

theorem empty_risk_set_counterexample:
  "matching_problem (\<lambda>v. Some 1) [(3, [4]), (7, [])] =
     Inr \<lparr>variables = [(3, 4)], objective = [((3, 4), 1)],
          constraints = [([(3, 4)], LpConstraintEQ, 1), ([], LpConstraintEQ, 1),
                         ([(3, 4)], LpConstraintLE, 1)]\<rparr> \<and>
   \<not> (\<exists>x. feasible
          \<lparr>variables = [(3, 4)], objective = [((3, 4), 1)],
           constraints = [([(3, 4)], LpConstraintEQ, 1), ([], LpConstraintEQ, 1),
                          ([(3, 4)], LpConstraintLE, 1)]\<rparr> x)"
  by (simp add: matching_problem_def risk_pairs_def treated_constraints_def
      control_constraints_def all_controls_def feasible_def)

text \<open>
  Claim C7, as amended. \<^verbatim>\<open>optimal_balanced_matching\<close> never looks at the status the
  solver reports: with the same variable values and any other status it returns the
  same result, so no status is surfaced to the caller.
\<close>

theorem solver_status_ignored:
  "optimal_balanced_matching (\<lambda>prob. (solve prob)\<lparr>status := s\<rparr>) distance_matrix risk_sets
     penalty_factor =
   optimal_balanced_matching solve distance_matrix risk_sets penalty_factor"
proof -
  have "extract_matches ((solve prob)\<lparr>status := s\<rparr>) risk_sets =
        extract_matches (solve prob) risk_sets" for prob
    by (simp add: extract_matches_def)
  then show ?thesis
    by (simp add: optimal_balanced_matching_def split: sum.splits)
qed

text \<open>
  Claim C7 as stated fails: a solver that reports an infeasible program and sets no
  variable makes \<^verbatim>\<open>optimal_balanced_matching\<close> return the empty matching, as an
  ordinary result.
\<close>

theorem solver_status_counterexample:
  "status (\<lparr>status = LpStatusInfeasible, varValue = (\<lambda>v. None)\<rparr>) \<noteq> LpStatusOptimal \<and>
   optimal_balanced_matching
     (\<lambda>prob. \<lparr>status = LpStatusInfeasible, varValue = (\<lambda>v. None)\<rparr>)
     (\<lambda>v. Some 1) [(3, [4]), (7, [])] 100000 = Inr []"
  by (simp add: optimal_balanced_matching_def matching_problem_def risk_pairs_def
      treated_constraints_def control_constraints_def all_controls_def extract_matches_def)

end
